theory Spec2Isabelle
  imports Complex_Main "HOL-Library.Monad_Syntax"
begin

section \<open>Python values used by the bot\<close>

text \<open>
  The bot is a Python program (\<^verbatim>\<open>src/bot.py\<close>, \<^verbatim>\<open>src/config.py\<close>). Python's \<^verbatim>\<open>str\<close> is
  modelled as \<^typ>\<open>string\<close>, one \<^typ>\<open>char\<close> per code point (code points up to 255); Python's
  \<^verbatim>\<open>int\<close> as \<^typ>\<open>int\<close>; the clock \<^verbatim>\<open>time.time()\<close> as a \<^typ>\<open>real\<close> passed in by the caller;
  exceptions as values of \<open>exn\<close>, a function that may raise returning \<open>exn + 'a\<close>.
\<close>

datatype exn =
    NameError string
  | ValueError string
  | IndexError
  | OSError string
  | RPCError string
  | FloodWait nat
  | AttributeError string
  | KeyError string
  | OverflowError
  | ZeroDivisionError
  | CancelledError
  | KeyboardInterrupt

text \<open>\<^verbatim>\<open>except Exception\<close> catches everything but the \<^verbatim>\<open>BaseException\<close>-only classes
  (\<^verbatim>\<open>asyncio.CancelledError\<close> since Python 3.8, \<^verbatim>\<open>KeyboardInterrupt\<close>).\<close>

fun is_Exception :: "exn \<Rightarrow> bool" where
  "is_Exception CancelledError = False"
| "is_Exception KeyboardInterrupt = False"
| "is_Exception _ = True"

text \<open>\<^verbatim>\<open>str(n)\<close> for an integer: decimal digits, a leading minus sign when negative.\<close>

definition digit_char :: "nat \<Rightarrow> char" where
  "digit_char d = ''0123456789'' ! d"

fun show_nat :: "nat \<Rightarrow> string" where
  "show_nat n = (if n < 10 then [digit_char n] else show_nat (n div 10) @ [digit_char (n mod 10)])"

declare show_nat.simps [simp del]

definition show_int :: "int \<Rightarrow> string" where
  "show_int i = (if i < 0 then CHR ''-'' # show_nat (nat (- i)) else show_nat (nat i))"

text \<open>\<^verbatim>\<open>int(x)\<close> for a float truncates towards zero.\<close>

definition py_int_of_float :: "real \<Rightarrow> int" where
  "py_int_of_float x = (if 0 \<le> x then \<lfloor>x\<rfloor> else \<lceil>x\<rceil>)"

section \<open>Filename sanitizer\<close>

text \<open>\<^verbatim>\<open>str.split(sep)\<close> for a one-character separator.\<close>

fun split_on :: "char \<Rightarrow> string \<Rightarrow> string list" where
  "split_on sep [] = [[]]"
| "split_on sep (c # cs) =
     (if c = sep then [] # split_on sep cs
      else (case split_on sep cs of [] \<Rightarrow> [[c]] | p # ps \<Rightarrow> (c # p) # ps))"

text \<open>
  \<^verbatim>\<open>Path(filename).name\<close> on a POSIX system: the path is split at \<^verbatim>\<open>/\<close>, empty and \<^verbatim>\<open>.\<close>
  components are dropped, and the name is the last remaining component, or the empty
  string when none remains.
\<close>

definition path_name :: "string \<Rightarrow> string" where
  "path_name p =
     (let parts = filter (\<lambda>x. x \<noteq> [] \<and> x \<noteq> ''.'') (split_on CHR ''/'' p)
      in if parts = [] then [] else last parts)"

text \<open>
  The character class \<^verbatim>\<open>[\w\-.@() ]\<close> of the regular expression. \<^verbatim>\<open>\w\<close> is Unicode-aware:
  on ASCII it is letters, digits and the underscore; for the other code points the
  interpreter's Unicode table decides, which is the parameter \<open>uw\<close>.
\<close>

definition ascii_alnum :: "char \<Rightarrow> bool" where
  "ascii_alnum c =
     (let n = (of_char c :: nat)
      in (48 \<le> n \<and> n \<le> 57) \<or> (65 \<le> n \<and> n \<le> 90) \<or> (97 \<le> n \<and> n \<le> 122))"

definition word_char :: "(char \<Rightarrow> bool) \<Rightarrow> char \<Rightarrow> bool" where
  "word_char uw c =
     (if (of_char c :: nat) < 128 then ascii_alnum c \<or> c = CHR ''_'' else uw c)"

definition safe_char :: "(char \<Rightarrow> bool) \<Rightarrow> char \<Rightarrow> bool" where
  "safe_char uw c = (word_char uw c \<or> c \<in> set ''-.@() '')"

text \<open>\<^verbatim>\<open>str.rfind(c)\<close>: the last index of \<open>c\<close>, or \<open>-1\<close>.\<close>

fun rfind_from :: "char \<Rightarrow> string \<Rightarrow> int \<Rightarrow> int \<Rightarrow> int" where
  "rfind_from c [] i acc = acc"
| "rfind_from c (x # xs) i acc = rfind_from c xs (i + 1) (if x = c then i else acc)"

definition rfind :: "char \<Rightarrow> string \<Rightarrow> int" where
  "rfind c s = rfind_from c s 0 (- 1)"

text \<open>
  \<^verbatim>\<open>os.path.splitext\<close> (\<^verbatim>\<open>genericpath._splitext\<close> with separator \<^verbatim>\<open>/\<close>): the extension
  starts at the last dot after the last separator, unless only dots precede it.
\<close>

function skip_leading_dots :: "string \<Rightarrow> nat \<Rightarrow> nat \<Rightarrow> bool" where
  "skip_leading_dots p i d =
     (if i < d then (if p ! i \<noteq> CHR ''.'' then True else skip_leading_dots p (Suc i) d)
      else False)"
  by pat_completeness auto
termination
  by (relation "measure (\<lambda>(p, i, d). d - i)") auto

declare skip_leading_dots.simps [simp del]

definition splitext :: "string \<Rightarrow> string \<times> string" where
  "splitext p =
     (let sepIndex = rfind CHR ''/'' p; dotIndex = rfind CHR ''.'' p
      in if dotIndex > sepIndex \<and> skip_leading_dots p (nat (sepIndex + 1)) (nat dotIndex)
         then (take (nat dotIndex) p, drop (nat dotIndex) p)
         else (p, []))"

definition fallback_name :: "real \<Rightarrow> string" where
  "fallback_name now = ''file_'' @ show_int (py_int_of_float now)"

definition sanitize_filename :: "(char \<Rightarrow> bool) \<Rightarrow> real \<Rightarrow> string \<Rightarrow> string" where
  "sanitize_filename uw now filename =
     (if filename = [] then fallback_name now
      else
        let filename = path_name filename;
            safe_chars = filter (safe_char uw) filename;
            safe_chars = map (\<lambda>c. if c = CHR '' '' then CHR ''_'' else c) safe_chars;
            safe_chars =
              (if length safe_chars > 255
               then (case splitext safe_chars of (name, ext) \<Rightarrow> take 250 name @ ext)
               else safe_chars)
        in if safe_chars \<noteq> [] then safe_chars else fallback_name now)"

text \<open>The object key of \<^verbatim>\<open>process_upload\<close>: \<^verbatim>\<open>f"{user_id}/{int(time.time())}_{safe_filename}"\<close>.\<close>

definition s3_key :: "int \<Rightarrow> real \<Rightarrow> string \<Rightarrow> string" where
  "s3_key user_id now safe_filename =
     show_int user_id @ ''/'' @ show_int (py_int_of_float now) @ ''_'' @ safe_filename"

text \<open>Decoding a decimal rendering, used to show that \<open>show_nat\<close> loses nothing.\<close>

definition digit_val :: "char \<Rightarrow> nat" where
  "digit_val c = of_char c - 48"

definition undigits :: "string \<Rightarrow> nat" where
  "undigits s = foldl (\<lambda>a c. 10 * a + digit_val c) 0 s"

section \<open>Size formatter\<close>

definition size_name :: "string list" where
  "size_name = [''B'', ''KB'', ''MB'', ''GB'', ''TB'', ''PB'']"

text \<open>Indexing a Python tuple: a negative index counts from the end, an index out of
  range raises \<^verbatim>\<open>IndexError\<close>.\<close>

definition py_index :: "'a list \<Rightarrow> int \<Rightarrow> exn + 'a" where
  "py_index xs i =
     (if 0 \<le> i \<and> i < int (length xs) then Inr (xs ! nat i)
      else if i < 0 \<and> - int (length xs) \<le> i then Inr (xs ! nat (int (length xs) + i))
      else Inl IndexError)"

text \<open>
  \<^verbatim>\<open>int(math.floor(math.log(x, 1024)))\<close> for \<open>x > 0\<close>, computed exactly (the float
  rounding of \<^verbatim>\<open>math.log\<close> just below a power of 1024 is not modelled). The search is
  cut off at 103 upwards and 108 downwards: beyond these \<^verbatim>\<open>math.pow(1024, i)\<close> overflows,
  or underflows to \<open>0.0\<close>, and \<open>human_size\<close> raises whatever the exact index is.
\<close>

fun log_up :: "nat \<Rightarrow> real \<Rightarrow> nat" where
  "log_up 0 x = 0"
| "log_up (Suc k) x = (if x < 1024 then 0 else Suc (log_up k (x / 1024)))"

fun log_down :: "nat \<Rightarrow> real \<Rightarrow> nat" where
  "log_down 0 x = 0"
| "log_down (Suc k) x = (if 1 \<le> x then 0 else Suc (log_down k (x * 1024)))"

definition floor_log1024 :: "real \<Rightarrow> int" where
  "floor_log1024 x = (if 1 \<le> x then int (log_up 103 x) else - int (log_down 108 x))"

definition pow1024 :: "int \<Rightarrow> real" where
  "pow1024 i = (if 0 \<le> i then 1024 ^ nat i else 1 / 1024 ^ nat (- i))"

text \<open>\<^verbatim>\<open>round(x, 2)\<close> as a number of hundredths, ties to even, and the \<^verbatim>\<open>repr\<close> of the
  rounded float (one decimal when the second is zero).\<close>

definition round_half_even :: "real \<Rightarrow> int" where
  "round_half_even x =
     (let f = \<lfloor>x\<rfloor>; d = x - of_int f
      in if d < 1 / 2 then f else if 1 / 2 < d then f + 1 else if even f then f else f + 1)"

definition show_float2 :: "int \<Rightarrow> string" where
  "show_float2 h =
     show_int (h div 100) @ ''.'' @
     (if h mod 10 = 0 then [digit_char (nat (h mod 100 div 10))]
      else [digit_char (nat (h mod 100 div 10)), digit_char (nat (h mod 10))])"

definition human_size :: "real \<Rightarrow> exn + string" where
  "human_size size_bytes =
     (if size_bytes = 0 then Inr ''0B''
      else if size_bytes < 0 then Inl (ValueError ''math domain error'')
      else
        let i = floor_log1024 size_bytes
        in if 103 \<le> i then Inl OverflowError
           else if i \<le> - 108 then Inl ZeroDivisionError
           else
             let s = round_half_even (size_bytes / pow1024 i * 100)
             in (case py_index size_name i of
                   Inl e \<Rightarrow> Inl e
                 | Inr unit_name \<Rightarrow> Inr (show_float2 s @ '' '' @ unit_name)))"

section \<open>Configuration and startup\<close>

record config =
  API_ID :: int
  API_HASH :: string
  BOT_TOKEN :: string
  WASABI_ACCESS_KEY :: string
  WASABI_SECRET_KEY :: string
  WASABI_BUCKET :: string
  WASABI_REGION :: string
  WASABI_ENDPOINT :: string
  MAX_FILE_SIZE :: int
  URL_EXPIRY :: int
  DOWNLOAD_DIR :: string

text \<open>\<^verbatim>\<open>os.getenv(name, default)\<close> on an environment \<open>env\<close>.\<close>

definition getenv :: "(string \<rightharpoonup> string) \<Rightarrow> string \<Rightarrow> string \<Rightarrow> string" where
  "getenv env name dflt = (case env name of None \<Rightarrow> dflt | Some v \<Rightarrow> v)"

text \<open>
  The class body of \<^verbatim>\<open>Config\<close> runs when \<^verbatim>\<open>config.py\<close> is imported. \<^verbatim>\<open>int(os.getenv("API_ID", 0))\<close>
  is \<open>0\<close> when the variable is not set and otherwise parses its text with the builtin
  \<^verbatim>\<open>int\<close>, the parameter \<open>parse_int\<close>, which raises \<^verbatim>\<open>ValueError\<close> on text that is no integer.
\<close>

definition load_config :: "(string \<Rightarrow> exn + int) \<Rightarrow> (string \<rightharpoonup> string) \<Rightarrow> exn + config" where
  "load_config parse_int env =
     (case (case env ''API_ID'' of None \<Rightarrow> Inr 0 | Some v \<Rightarrow> parse_int v) of
        Inl e \<Rightarrow> Inl e
      | Inr api_id \<Rightarrow>
          let region = getenv env ''WASABI_REGION'' ''us-east-1''
          in Inr \<lparr> API_ID = api_id,
                   API_HASH = getenv env ''API_HASH'' [],
                   BOT_TOKEN = getenv env ''BOT_TOKEN'' [],
                   WASABI_ACCESS_KEY = getenv env ''WASABI_ACCESS_KEY'' [],
                   WASABI_SECRET_KEY = getenv env ''WASABI_SECRET_KEY'' [],
                   WASABI_BUCKET = getenv env ''WASABI_BUCKET'' [],
                   WASABI_REGION = region,
                   WASABI_ENDPOINT = ''https://s3.'' @ region @ ''.wasabisys.com'',
                   MAX_FILE_SIZE = 4 * 1024 * 1024 * 1024,
                   URL_EXPIRY = 24 * 3600,
                   DOWNLOAD_DIR = ''downloads'' \<rparr>)"

text \<open>\<^verbatim>\<open>not getattr(config, attr, None)\<close> for each required attribute: an integer is falsy
  when it is 0, a string when it is empty.\<close>

definition required_attrs :: "string list" where
  "required_attrs =
     [''API_ID'', ''API_HASH'', ''BOT_TOKEN'',
      ''WASABI_ACCESS_KEY'', ''WASABI_SECRET_KEY'', ''WASABI_BUCKET'']"

definition attr_falsy :: "config \<Rightarrow> string \<Rightarrow> bool" where
  "attr_falsy cfg attr =
     (if attr = ''API_ID'' then API_ID cfg = 0
      else if attr = ''API_HASH'' then API_HASH cfg = []
      else if attr = ''BOT_TOKEN'' then BOT_TOKEN cfg = []
      else if attr = ''WASABI_ACCESS_KEY'' then WASABI_ACCESS_KEY cfg = []
      else if attr = ''WASABI_SECRET_KEY'' then WASABI_SECRET_KEY cfg = []
      else if attr = ''WASABI_BUCKET'' then WASABI_BUCKET cfg = []
      else True)"

text \<open>\<^verbatim>\<open>', '.join(xs)\<close>.\<close>

fun join_comma :: "string list \<Rightarrow> string" where
  "join_comma [] = []"
| "join_comma [x] = x"
| "join_comma (x # y # ys) = x @ '', '' @ join_comma (y # ys)"

text \<open>\<open>validate_config\<close>; \<open>makedirs\<close> is what \<^verbatim>\<open>os.makedirs(config.DOWNLOAD_DIR, exist_ok=True)\<close>
  raises, if anything.\<close>

definition validate_config :: "config \<Rightarrow> exn option \<Rightarrow> exn + unit" where
  "validate_config cfg makedirs =
     (let missing = filter (attr_falsy cfg) required_attrs
      in if missing \<noteq> [] then Inl (ValueError (''Missing configuration: '' @ join_comma missing))
         else (case makedirs of Some e \<Rightarrow> Inl e | None \<Rightarrow> Inr ()))"

text \<open>
  What the surroundings do during one run of the program: \<open>makedirs\<close> as above, \<open>clients\<close>
  what constructing the Pyrogram and boto3 clients raises, \<open>run\<close> what
  \<^verbatim>\<open>asyncio.run(bot.run())\<close> raises (\<open>None\<close>: it returns).
\<close>

record startup_world =
  makedirs_raises :: "exn option"
  clients_raise :: "exn option"
  run_raises :: "exn option"

datatype log_line =
    Info string
  | Error string
  | Traceback exn

record exit_outcome =
  exit_status :: int
  logged :: "log_line list"
  bot_ran :: bool

text \<open>\<^verbatim>\<open>str(e)\<close> of an exception, as the log lines use it.\<close>

fun exn_text :: "exn \<Rightarrow> string" where
  "exn_text (NameError n) = ''name '' @ [CHR 0x27] @ n @ [CHR 0x27] @ '' is not defined''"
| "exn_text (ValueError m) = m"
| "exn_text (OSError m) = m"
| "exn_text (RPCError m) = m"
| "exn_text (AttributeError m) = m"
| "exn_text (KeyError m) = m"
| "exn_text IndexError = ''tuple index out of range''"
| "exn_text OverflowError = ''math range error''"
| "exn_text ZeroDivisionError = ''float division by zero''"
| "exn_text (FloodWait n) = ''A wait of '' @ show_nat n @ '' seconds is required''"
| "exn_text CancelledError = []"
| "exn_text KeyboardInterrupt = []"

text \<open>\<open>WasabiUploadBot.__init__\<close>: validation first, then the clients.\<close>

definition bot_init :: "config \<Rightarrow> startup_world \<Rightarrow> exn + unit" where
  "bot_init cfg w =
     (case validate_config cfg (makedirs_raises w) of
        Inl e \<Rightarrow> Inl e
      | Inr _ \<Rightarrow> (case clients_raise w of Some e \<Rightarrow> Inl e | None \<Rightarrow> Inr ()))"

text \<open>
  \<open>main\<close>: both handlers only log, so \<open>main\<close> returns and the interpreter exits with
  status 0; an exception that neither handler catches ends the process with status 1.
\<close>

definition main_handler :: "log_line list \<Rightarrow> bool \<Rightarrow> exn \<Rightarrow> exit_outcome" where
  "main_handler lg started e =
     (if e = KeyboardInterrupt
      then \<lparr> exit_status = 0, logged = lg @ [Info ''Bot interrupted by user''], bot_ran = started \<rparr>
      else if is_Exception e
      then \<lparr> exit_status = 0, logged = lg @ [Error (''Fatal error: '' @ exn_text e)], bot_ran = started \<rparr>
      else \<lparr> exit_status = 1, logged = lg @ [Traceback e], bot_ran = started \<rparr>)"

definition main :: "config \<Rightarrow> startup_world \<Rightarrow> exit_outcome" where
  "main cfg w =
     (case bot_init cfg w of
        Inl e \<Rightarrow> main_handler [] False e
      | Inr _ \<Rightarrow>
          let lg = [Info ''Configuration validated successfully'', Info ''Starting Wasabi Upload Bot...'']
          in (case run_raises w of
                Some e \<Rightarrow> main_handler lg True e
              | None \<Rightarrow> \<lparr> exit_status = 0, logged = lg, bot_ran = True \<rparr>))"

text \<open>A concrete environment and a concrete reading of decimal text, for running the
  program on examples: \<open>no_env\<close> sets no variable, \<open>parse_decimal\<close> accepts a non-empty
  string of ASCII digits.\<close>

definition no_env :: "string \<rightharpoonup> string" where
  "no_env = Map.empty"

definition parse_decimal :: "string \<Rightarrow> exn + int" where
  "parse_decimal s =
     (if s \<noteq> [] \<and> list_all (\<lambda>c. c \<in> set ''0123456789'') s then Inr (int (undigits s))
      else Inl (ValueError (''invalid literal for int() with base 10: '' @ s)))"

definition quiet_world :: startup_world where
  "quiet_world = \<lparr> makedirs_raises = None, clients_raise = None, run_raises = None \<rparr>"

text \<open>The whole program: importing \<^verbatim>\<open>config\<close> (an exception there is uncaught, status 1),
  then \<open>main\<close>.\<close>

definition program :: "(string \<Rightarrow> exn + int) \<Rightarrow> (string \<rightharpoonup> string) \<Rightarrow> startup_world \<Rightarrow> exit_outcome" where
  "program parse_int env w =
     (case load_config parse_int env of
        Inl e \<Rightarrow> \<lparr> exit_status = 1, logged = [Traceback e], bot_ran = False \<rparr>
      | Inr cfg \<Rightarrow> main cfg w)"

section \<open>The bot: registry, notifier, staging directory\<close>

text \<open>
  The status dictionary kept per owner in \<^verbatim>\<open>self.user_status\<close> (keys \<^verbatim>\<open>filename\<close>, \<^verbatim>\<open>file_path\<close>,
  \<^verbatim>\<open>progress\<close>, \<^verbatim>\<open>speed\<close>, \<^verbatim>\<open>elapsed\<close>, \<^verbatim>\<open>start_time\<close>).
\<close>

record status =
  filename :: string
  file_path :: string
  progress :: real
  speed :: string
  elapsed :: real
  start_time :: real

text \<open>
  The texts handed to the notifier (\<^verbatim>\<open>reply_text\<close>, \<^verbatim>\<open>edit_text\<close>), one constructor per text
  of the source, carrying the parts of the text that vary (for the summary of a completed
  upload: file name, size, download time, upload time, average speed, the first 60
  characters of the link, the link of the buttons, and the hours until it expires).
\<close>

datatype message =
    TooLargeMsg string
  | AlreadyActiveMsg
  | DownloadingMsg
  | UploadingMsg
  | ProgressMsg string int string string string string string
  | CompleteMsg string string string string string string string int
  | ErrorMsg string
  | UploadFailedMsg string
  | CancelledMsg
  | NoActiveMsg
  | StatusMsg string string string string
  | NoUploadsMsg

text \<open>What the cleanup code does, in order: \<^verbatim>\<open>os.remove\<close> and the two \<^verbatim>\<open>del\<close> statements.\<close>

datatype action =
    RemoveFile string
  | DelTask int
  | DelStatus int

text \<open>
  The bot object and what it acts on: \<open>user_tasks\<close> and \<open>user_status\<close> are the two
  dictionaries (a task is named by the message that started it); \<open>last_update\<close> is the
  attribute \<^verbatim>\<open>last_update\<close> of the function \<open>progress_bar\<close>, \<open>None\<close> while the function has
  no such attribute; \<open>files\<close> are the paths that exist in the staging directory; \<open>store\<close>
  the bucket and key of every object put in the object store; \<open>sent\<close> the texts handed to
  the notifier; \<open>trace\<close> the cleanup actions performed; \<open>blog\<close> the log.
\<close>

record bot =
  user_tasks :: "int \<rightharpoonup> nat"
  user_status :: "int \<rightharpoonup> status"
  last_update :: "(int \<rightharpoonup> real) option"
  files :: "string set"
  store :: "(string \<times> string) list"
  sent :: "message list"
  trace :: "action list"
  blog :: "log_line list"

definition say :: "message \<Rightarrow> bot \<Rightarrow> bot" where
  "say m b = b\<lparr>sent := sent b @ [m]\<rparr>"

definition note_log :: "log_line \<Rightarrow> bot \<Rightarrow> bot" where
  "note_log l b = b\<lparr>blog := blog b @ [l]\<rparr>"

text \<open>\<^verbatim>\<open>if os.path.exists(p): os.remove(p)\<close>.\<close>

definition remove_file :: "string \<Rightarrow> bot \<Rightarrow> bot" where
  "remove_file p b =
     (if p \<in> files b then b\<lparr>files := files b - {p}, trace := trace b @ [RemoveFile p]\<rparr> else b)"

text \<open>\<^verbatim>\<open>if k in d: del d[k]\<close> for the two dictionaries.\<close>

definition del_task :: "int \<Rightarrow> bot \<Rightarrow> bot" where
  "del_task uid b =
     (if uid \<in> dom (user_tasks b)
      then b\<lparr>user_tasks := (user_tasks b)(uid := None), trace := trace b @ [DelTask uid]\<rparr>
      else b)"

definition del_status :: "int \<Rightarrow> bot \<Rightarrow> bot" where
  "del_status uid b =
     (if uid \<in> dom (user_status b)
      then b\<lparr>user_status := (user_status b)(uid := None), trace := trace b @ [DelStatus uid]\<rparr>
      else b)"

subsection \<open>Number formats of the texts\<close>

text \<open>\<^verbatim>\<open>f"{x:.1f}"\<close>: one decimal, ties to even (on the exact value).\<close>

definition fmt_1f :: "real \<Rightarrow> string" where
  "fmt_1f x =
     (let t = round_half_even (\<bar>x\<bar> * 10)
      in (if x < 0 then ''-'' else []) @ show_int (t div 10) @ ''.'' @ [digit_char (nat (t mod 10))])"

definition two_digits :: "nat \<Rightarrow> string" where
  "two_digits n = [digit_char (n div 10 mod 10), digit_char (n mod 10)]"

text \<open>\<^verbatim>\<open>time.strftime('%H:%M:%S', time.gmtime(eta))\<close> for \<open>eta > 0\<close>.\<close>

definition hms :: "real \<Rightarrow> string" where
  "hms eta =
     (let s = nat \<lfloor>eta\<rfloor>
      in two_digits (s div 3600 mod 24) @ '':'' @ two_digits (s div 60 mod 60) @ '':'' @
         two_digits (s mod 60))"

subsection \<open>Progress reporter\<close>

text \<open>The text of one progress report; the calls of \<open>human_size\<close> may raise.\<close>

definition progress_text :: "int \<Rightarrow> int \<Rightarrow> real \<Rightarrow> real \<Rightarrow> string \<Rightarrow> exn + message" where
  "progress_text current total' started now operation =
     (let elapsed = now - started;
          speed = (if 0 < elapsed then of_int current / elapsed else 0);
          percentage = (if 0 < total' then of_int current / of_int total' * 100 else 0);
          filled = min 20 \<lfloor>20 * percentage / 100\<rfloor>;
          eta = (if 0 < speed then (of_int total' - of_int current) / speed else 0)
      in case human_size (of_int current) of
           Inl e \<Rightarrow> Inl e
         | Inr cur \<Rightarrow>
             (case human_size (of_int total') of
                Inl e \<Rightarrow> Inl e
              | Inr tot \<Rightarrow>
                  (case human_size speed of
                     Inl e \<Rightarrow> Inl e
                   | Inr sp \<Rightarrow>
                       Inr (ProgressMsg operation filled (fmt_1f percentage @ ''%'') cur tot
                              (sp @ ''/s'') (if 0 < eta then hms eta else ''Calculating...'')))))"

text \<open>
  The body of the \<^verbatim>\<open>try\<close> of \<open>progress_bar\<close>: the bot afterwards, and the exception raised if
  any. \<^verbatim>\<open>self.progress_bar\<close> is a bound method: \<^verbatim>\<open>hasattr\<close> looks the attribute up on the
  underlying function, and assigning an attribute to a bound method raises
  \<^verbatim>\<open>AttributeError\<close>. So while the function has no attribute \<^verbatim>\<open>last_update\<close>, the assignment
  of line 132 raises, and nothing ever creates the attribute. \<open>edit\<close> is what
  \<^verbatim>\<open>status_msg.edit_text\<close> raises, if anything.
\<close>

definition progress_try ::
  "int \<Rightarrow> int \<Rightarrow> int \<Rightarrow> real \<Rightarrow> string \<Rightarrow> real \<Rightarrow> exn option \<Rightarrow> bot \<Rightarrow> bot \<times> exn option" where
  "progress_try current total' chat_id started operation now edit b =
     (case last_update b of
        None \<Rightarrow>
          (b, Some (AttributeError
             ([CHR 0x27] @ ''method'' @ [CHR 0x27] @ '' object has no attribute '' @
              [CHR 0x27] @ ''last_update'' @ [CHR 0x27])))
      | Some lu \<Rightarrow>
          let last = (case lu chat_id of None \<Rightarrow> 0 | Some t \<Rightarrow> t)
          in if now - last < 1.5 \<and> current \<noteq> total' then (b, None)
             else
               let b1 = b\<lparr>last_update := Some (lu(chat_id \<mapsto> now))\<rparr>
               in (case progress_text current total' started now operation of
                     Inl e \<Rightarrow> (b1, Some e)
                   | Inr m \<Rightarrow> (say m b1, edit)))"

fun is_FloodWait :: "exn \<Rightarrow> bool" where
  "is_FloodWait (FloodWait _) = True"
| "is_FloodWait _ = False"

text \<open>\<open>progress_bar\<close> with its two handlers: \<^verbatim>\<open>FloodWait\<close> sleeps, any other \<^verbatim>\<open>Exception\<close> is
  logged; what is no \<^verbatim>\<open>Exception\<close> leaves the function.\<close>

definition progress_bar ::
  "int \<Rightarrow> int \<Rightarrow> int \<Rightarrow> real \<Rightarrow> string \<Rightarrow> real \<Rightarrow> exn option \<Rightarrow> bot \<Rightarrow> bot \<times> exn option" where
  "progress_bar current total' chat_id started operation now edit b =
     (case progress_try current total' chat_id started operation now edit b of
        (b', None) \<Rightarrow> (b', None)
      | (b', Some e) \<Rightarrow>
          if is_FloodWait e then (b', None)
          else if is_Exception e
          then (note_log (Error (''Progress bar error: '' @ exn_text e)) b', None)
          else (b', Some e))"

text \<open>The bot as \<open>__init__\<close> leaves it, on an empty staging directory and an empty store.\<close>

definition new_bot :: bot where
  "new_bot =
     \<lparr> user_tasks = Map.empty, user_status = Map.empty, last_update = None, files = {},
       store = [], sent = [], trace = [], blog = [] \<rparr>"

subsection \<open>The /cancel and /status handlers\<close>

definition cancel_handler :: "int \<Rightarrow> bot \<Rightarrow> bot" where
  "cancel_handler user_id b =
     (if user_id \<in> dom (user_tasks b)
      then
        let b1 = del_task user_id b;
            b2 = (case user_status b1 user_id of
                    None \<Rightarrow> b1
                  | Some st \<Rightarrow>
                      del_status user_id
                        (if file_path st \<noteq> [] then remove_file (file_path st) b1 else b1))
        in say CancelledMsg b2
      else say NoActiveMsg b)"

definition status_handler :: "int \<Rightarrow> bot \<Rightarrow> bot" where
  "status_handler user_id b =
     (case user_status b user_id of
        Some st \<Rightarrow>
          say (StatusMsg (filename st) (fmt_1f (progress st) @ ''%'') (speed st @ ''/s'')
                 (fmt_1f (elapsed st) @ ''s'')) b
      | None \<Rightarrow> say NoUploadsMsg b)"

section \<open>The upload job\<close>

text \<open>An incoming message with its media (\<^verbatim>\<open>message.document or message.video or
  message.audio\<close>), and the names bound at module level in \<^verbatim>\<open>bot.py\<close>: its imports, the
  logger, the class and \<open>main\<close>. A global name that is not among them (and is no builtin)
  raises \<^verbatim>\<open>NameError\<close> when it is read.\<close>

record media =
  file_name :: "string option"
  file_size :: int

record incoming =
  message_id :: nat
  from_user :: int
  chat :: int
  media :: "media option"

definition module_globals :: "string list" where
  "module_globals =
     [''os'', ''asyncio'', ''time'', ''math'', ''mimetypes'', ''re'', ''logging'', ''Path'',
      ''Dict'', ''Optional'', ''defaultdict'', ''Client'', ''filters'', ''idle'', ''Message'',
      ''InlineKeyboardMarkup'', ''InlineKeyboardButton'', ''FloodWait'', ''RPCError'', ''boto3'',
      ''ClientError'', ''TransferConfig'', ''config'', ''logger'', ''WasabiUploadBot'', ''main'']"

text \<open>
  What the surroundings do during one job: what \<^verbatim>\<open>os.makedirs\<close> raises; whether the staging
  file exists after \<^verbatim>\<open>download_media\<close> returns, and after it raises; what \<^verbatim>\<open>upload_file\<close>
  raises and how long it blocks; what \<^verbatim>\<open>generate_presigned_url\<close> returns or raises.
\<close>

record job_world =
  mkdir_raises :: "exn option"
  staged_on_return :: bool
  staged_on_raise :: bool
  upload_raises :: "exn option"
  upload_secs :: real
  presign :: "exn + string"

text \<open>
  The points where the job is suspended: the five \<^verbatim>\<open>await\<close>s of \<open>process_upload\<close> (lines 299,
  304, 316, 369 and, in its \<^verbatim>\<open>except\<close> block, 386) and the \<^verbatim>\<open>await\<close> of line 262 in the
  \<^verbatim>\<open>except\<close> block of \<open>file_handler\<close>; and the three ways a job ends.
\<close>

datatype final = Completed | Failed exn | Cancelled

datatype pc =
    AwaitReply
  | AwaitDownload
  | AwaitEditUploading
  | AwaitEditComplete
  | AwaitEditError exn
  | AwaitReplyFailed exn
  | Terminal final

text \<open>The local variables of \<open>process_upload\<close> that outlive a suspension.\<close>

record job =
  owner :: int
  chat_id :: int
  original_filename :: string
  safe_filename :: string
  path :: string
  size_bytes :: int
  download_start :: real
  download_time :: real
  stage :: pc

text \<open>
  What ends a suspension, with the clock at that moment: the awaited call returns, or
  raises; the owner's \<^verbatim>\<open>/cancel\<close> is handled while the job is suspended; or, during the
  download, the transport calls the progress callback with \<open>current\<close>, \<open>total\<close> and what the
  notifier's \<^verbatim>\<open>edit_text\<close> would raise.
\<close>

datatype event =
    Returned real
  | Raised real exn
  | Cancel real
  | Progress int int real "exn option"

text \<open>\<^verbatim>\<open>os.path.join\<close> of two components on POSIX.\<close>

definition path_join :: "string \<Rightarrow> string \<Rightarrow> string" where
  "path_join a b =
     (if b \<noteq> [] \<and> hd b = CHR ''/'' then b
      else if a = [] \<or> last a = CHR ''/'' then a @ b
      else a @ ''/'' @ b)"

text \<open>The \<^verbatim>\<open>finally\<close> block of \<open>file_handler\<close>, ending the job as \<open>ph\<close>.\<close>

definition finalize :: "final \<Rightarrow> bot \<times> job \<Rightarrow> bot \<times> job" where
  "finalize ph s =
     (case s of (b, j) \<Rightarrow> (del_status (owner j) (del_task (owner j) b), j\<lparr>stage := Terminal ph\<rparr>))"

text \<open>
  An exception \<open>e\<close> arrives at \<^verbatim>\<open>await task\<close> in \<open>file_handler\<close>: \<^verbatim>\<open>CancelledError\<close> is logged,
  any other \<^verbatim>\<open>Exception\<close> is logged and reported to the user (line 262), anything else
  only passes through the \<^verbatim>\<open>finally\<close> block.
\<close>

definition handler_except :: "exn \<Rightarrow> bot \<times> job \<Rightarrow> bot \<times> job" where
  "handler_except e s =
     (case s of (b, j) \<Rightarrow>
        if e = CancelledError
        then finalize Cancelled
               (note_log (Info (''Upload cancelled for user '' @ show_int (owner j))) b, j)
        else if is_Exception e
        then (say (UploadFailedMsg (exn_text e))
                (note_log (Error (''Upload error: '' @ exn_text e)) b),
              j\<lparr>stage := AwaitReplyFailed e\<rparr>)
        else finalize (Failed e) (b, j))"

text \<open>
  An exception \<open>e\<close> arrives in the \<^verbatim>\<open>try\<close> of \<open>process_upload\<close>: \<^verbatim>\<open>except Exception\<close> logs it and
  edits the status message (line 386); what is no \<^verbatim>\<open>Exception\<close> leaves \<open>process_upload\<close> at
  once.
\<close>

definition except_block :: "exn \<Rightarrow> bot \<times> job \<Rightarrow> bot \<times> job" where
  "except_block e s =
     (case s of (b, j) \<Rightarrow>
        if is_Exception e
        then (say (ErrorMsg (exn_text e))
                (note_log (Error (''Upload process error: '' @ exn_text e)) b),
              j\<lparr>stage := AwaitEditError e\<rparr>)
        else handler_except e (b, j))"

text \<open>The owner's \<^verbatim>\<open>/cancel\<close> while the task is suspended: \<open>cancel_handler\<close> runs, then
  \<^verbatim>\<open>CancelledError\<close> is raised at the \<^verbatim>\<open>await\<close>, which no \<^verbatim>\<open>except Exception\<close> catches.\<close>

definition cancelled :: "bot \<times> job \<Rightarrow> bot \<times> job" where
  "cancelled s =
     (case s of (b, j) \<Rightarrow> handler_except CancelledError (cancel_handler (owner j) b, j))"

text \<open>
  \<open>process_upload\<close> up to its first \<^verbatim>\<open>await\<close>: names, directory, status record, and the reply
  "Downloading from Telegram". An exception of \<^verbatim>\<open>os.makedirs\<close> is outside the \<^verbatim>\<open>try\<close>.
\<close>

definition start_upload ::
  "(char \<Rightarrow> bool) \<Rightarrow> config \<Rightarrow> job_world \<Rightarrow> real \<Rightarrow> incoming \<Rightarrow> media \<Rightarrow> bot \<Rightarrow> bot \<times> job" where
  "start_upload uw cfg w now msg m b =
     (let user_id = from_user msg;
          original =
            (case file_name m of
               None \<Rightarrow> fallback_name now
             | Some n \<Rightarrow> if n = [] then fallback_name now else n);
          safe = sanitize_filename uw now original;
          user_dir = path_join (DOWNLOAD_DIR cfg) (show_int user_id);
          fp = path_join user_dir safe;
          j = \<lparr> owner = user_id, chat_id = chat msg, original_filename = original,
                safe_filename = safe, path = fp, size_bytes = file_size m,
                download_start = 0, download_time = 0, stage = AwaitReply \<rparr>
      in case mkdir_raises w of
           Some e \<Rightarrow> handler_except e (b, j)
         | None \<Rightarrow>
             (say DownloadingMsg
                (b\<lparr>user_status := (user_status b)(user_id \<mapsto>
                      \<lparr> filename = safe, file_path = fp, progress = 0, speed = ''0B/s'',
                        elapsed = 0, start_time = now \<rparr>)\<rparr>),
              j))"

text \<open>
  Lines 317 to 380, entered when the edit "Uploading to Wasabi Storage" returns at clock
  \<open>t\<close>. The upload reads the global name \<^verbatim>\<open>s3_client\<close> (line 325), the link is made with
  \<^verbatim>\<open>self.s3_client\<close> (line 343). The content type and the metadata of the object are not
  part of the model.
\<close>

definition upload_and_link ::
  "string list \<Rightarrow> config \<Rightarrow> job_world \<Rightarrow> real \<Rightarrow> bot \<times> job \<Rightarrow> bot \<times> job" where
  "upload_and_link g cfg w t s =
     (case s of (b, j) \<Rightarrow>
        let key = s3_key (owner j) t (safe_filename j)
        in if ''s3_client'' \<notin> set g then except_block (NameError ''s3_client'') (b, j)
           else (case upload_raises w of
                   Some e \<Rightarrow> except_block e (b, j)
                 | None \<Rightarrow>
                     let b1 = b\<lparr>store := store b @ [(WASABI_BUCKET cfg, key)]\<rparr>;
                         upload_time = upload_secs w
                     in (case presign w of
                           Inl e \<Rightarrow> except_block e (b1, j)
                         | Inr url \<Rightarrow>
                             let b2 = remove_file (path j) b1;
                                 total_time = download_time j + upload_time;
                                 avg_speed =
                                   (if 0 < total_time then of_int (size_bytes j) / total_time
                                    else 0)
                             in (case human_size (of_int (size_bytes j)) of
                                   Inl e \<Rightarrow> except_block e (b2, j)
                                 | Inr sz \<Rightarrow>
                                     (case human_size avg_speed of
                                        Inl e \<Rightarrow> except_block e (b2, j)
                                      | Inr sp \<Rightarrow>
                                          (say (CompleteMsg (original_filename j) sz
                                                  (fmt_1f (download_time j) @ ''s'')
                                                  (fmt_1f upload_time @ ''s'') (sp @ ''/s'')
                                                  (take 60 url) url
                                                  (URL_EXPIRY cfg div 3600)) b2,
                                           j\<lparr>stage := AwaitEditComplete\<rparr>))))))"

text \<open>One step of the job from each point of suspension.\<close>

fun at_reply :: "event \<Rightarrow> bot \<times> job \<Rightarrow> bot \<times> job" where
  "at_reply (Returned t) (b, j) = (b, j\<lparr>download_start := t, stage := AwaitDownload\<rparr>)"
| "at_reply (Raised t e) (b, j) = handler_except e (b, j)"
| "at_reply (Cancel t) (b, j) = cancelled (b, j)"
| "at_reply (Progress c n t edit) (b, j) = (b, j)"

fun at_download :: "job_world \<Rightarrow> event \<Rightarrow> bot \<times> job \<Rightarrow> bot \<times> job" where
  "at_download w (Returned t) (b, j) =
     (let b1 = (if staged_on_return w then b\<lparr>files := insert (path j) (files b)\<rparr> else b);
          download_time = t - download_start j
      in case user_status b1 (owner j) of
           None \<Rightarrow> except_block (KeyError (show_int (owner j))) (b1, j)
         | Some st \<Rightarrow>
             (say UploadingMsg
                (b1\<lparr>user_status := (user_status b1)(owner j \<mapsto> st\<lparr>elapsed := download_time\<rparr>)\<rparr>),
              j\<lparr>download_time := download_time, stage := AwaitEditUploading\<rparr>))"
| "at_download w (Raised t e) (b, j) =
     except_block e
       ((if staged_on_raise w then b\<lparr>files := insert (path j) (files b)\<rparr> else b), j)"
| "at_download w (Cancel t) (b, j) = cancelled (b, j)"
| "at_download w (Progress c n t edit) (b, j) =
     (case progress_bar c n (chat_id j) (download_start j) ''Downloading'' t edit b of
        (b', None) \<Rightarrow> (b', j)
      | (b', Some e) \<Rightarrow> except_block e (b', j))"

fun at_edit_uploading ::
  "string list \<Rightarrow> config \<Rightarrow> job_world \<Rightarrow> event \<Rightarrow> bot \<times> job \<Rightarrow> bot \<times> job" where
  "at_edit_uploading g cfg w (Returned t) (b, j) = upload_and_link g cfg w t (b, j)"
| "at_edit_uploading g cfg w (Raised t e) (b, j) = except_block e (b, j)"
| "at_edit_uploading g cfg w (Cancel t) (b, j) = cancelled (b, j)"
| "at_edit_uploading g cfg w (Progress c n t edit) (b, j) = (b, j)"

fun at_edit_complete :: "event \<Rightarrow> bot \<times> job \<Rightarrow> bot \<times> job" where
  "at_edit_complete (Returned t) (b, j) =
     finalize Completed
       (note_log (Info (''Upload completed for user '' @ show_int (owner j) @ '': '' @
                        original_filename j)) b, j)"
| "at_edit_complete (Raised t e) (b, j) = except_block e (b, j)"
| "at_edit_complete (Cancel t) (b, j) = cancelled (b, j)"
| "at_edit_complete (Progress c n t edit) (b, j) = (b, j)"

text \<open>In the \<^verbatim>\<open>except\<close> block the cleanup of line 389 comes after the edit of line 386: when
  the edit raises, the new exception leaves the block before the cleanup.\<close>

fun at_edit_error :: "exn \<Rightarrow> event \<Rightarrow> bot \<times> job \<Rightarrow> bot \<times> job" where
  "at_edit_error e0 (Returned t) (b, j) = handler_except e0 (remove_file (path j) b, j)"
| "at_edit_error e0 (Raised t e) (b, j) = handler_except e (b, j)"
| "at_edit_error e0 (Cancel t) (b, j) = cancelled (b, j)"
| "at_edit_error e0 (Progress c n t edit) (b, j) = (b, j)"

text \<open>At line 262 the task is over: a \<^verbatim>\<open>/cancel\<close> runs \<open>cancel_handler\<close>, whose
  \<^verbatim>\<open>task.cancel()\<close> has no effect, and \<open>file_handler\<close> stays suspended.\<close>

fun at_reply_failed :: "exn \<Rightarrow> event \<Rightarrow> bot \<times> job \<Rightarrow> bot \<times> job" where
  "at_reply_failed e0 (Returned t) (b, j) = finalize (Failed e0) (b, j)"
| "at_reply_failed e0 (Raised t e) (b, j) = finalize (Failed e0) (b, j)"
| "at_reply_failed e0 (Cancel t) (b, j) = (cancel_handler (owner j) b, j)"
| "at_reply_failed e0 (Progress c n t edit) (b, j) = (b, j)"

fun at_terminal :: "event \<Rightarrow> bot \<times> job \<Rightarrow> bot \<times> job" where
  "at_terminal (Cancel t) (b, j) = (cancel_handler (owner j) b, j)"
| "at_terminal _ (b, j) = (b, j)"

definition step :: "string list \<Rightarrow> config \<Rightarrow> job_world \<Rightarrow> event \<Rightarrow> bot \<times> job \<Rightarrow> bot \<times> job" where
  "step g cfg w ev s =
     (case stage (snd s) of
        AwaitReply \<Rightarrow> at_reply ev s
      | AwaitDownload \<Rightarrow> at_download w ev s
      | AwaitEditUploading \<Rightarrow> at_edit_uploading g cfg w ev s
      | AwaitEditComplete \<Rightarrow> at_edit_complete ev s
      | AwaitEditError e0 \<Rightarrow> at_edit_error e0 ev s
      | AwaitReplyFailed e0 \<Rightarrow> at_reply_failed e0 ev s
      | Terminal ph \<Rightarrow> at_terminal ev s)"

fun run :: "string list \<Rightarrow> config \<Rightarrow> job_world \<Rightarrow> event list \<Rightarrow> bot \<times> job \<Rightarrow> bot \<times> job" where
  "run g cfg w [] s = s"
| "run g cfg w (ev # evs) s = run g cfg w evs (step g cfg w ev s)"

subsection \<open>The file handler\<close>

datatype reason = TooLarge | AlreadyActive

datatype verdict = Ignored | Rejected reason | Accepted | HandlerRaised exn

text \<open>
  \<open>file_handler\<close> up to the first suspension of the job it starts: which way it went, the
  bot afterwards, and the job if one was created. In the branch of the size limit the text
  of the reply holds \<open>human_size(config.MAX_FILE_SIZE)\<close>: when that call raises, the
  exception leaves the handler before anything is sent (\<open>HandlerRaised\<close>).
\<close>

definition file_handler ::
  "(char \<Rightarrow> bool) \<Rightarrow> config \<Rightarrow> job_world \<Rightarrow> real \<Rightarrow> incoming \<Rightarrow> bot \<Rightarrow> verdict \<times> bot \<times> job option" where
  "file_handler uw cfg w now msg b =
     (case media msg of
        None \<Rightarrow> (Ignored, b, None)
      | Some m \<Rightarrow>
          if file_size m > MAX_FILE_SIZE cfg
          then (case human_size (of_int (MAX_FILE_SIZE cfg)) of
                  Inl e \<Rightarrow> (HandlerRaised e, b, None)
                | Inr limit \<Rightarrow> (Rejected TooLarge, say (TooLargeMsg limit) b, None))
          else if from_user msg \<in> dom (user_tasks b)
          then (Rejected AlreadyActive, say AlreadyActiveMsg b, None)
          else
            (case start_upload uw cfg w now msg m
                    (b\<lparr>user_tasks := (user_tasks b)(from_user msg \<mapsto> message_id msg)\<rparr>) of
               (b', j) \<Rightarrow> (Accepted, b', Some j)))"

text \<open>The configuration of \<^verbatim>\<open>config.py\<close> with every credential set, a world in which every
  call succeeds, and a submission of 30 MB by owner 7, for running the job on examples.\<close>

definition demo_config :: config where
  "demo_config =
     \<lparr> API_ID = 12345, API_HASH = ''hash'', BOT_TOKEN = ''token'',
       WASABI_ACCESS_KEY = ''access'', WASABI_SECRET_KEY = ''secret'',
       WASABI_BUCKET = ''bucket'', WASABI_REGION = ''us-east-1'',
       WASABI_ENDPOINT = ''https://s3.us-east-1.wasabisys.com'',
       MAX_FILE_SIZE = 4 * 1024 * 1024 * 1024, URL_EXPIRY = 24 * 3600,
       DOWNLOAD_DIR = ''downloads'' \<rparr>"

definition fair_world :: job_world where
  "fair_world =
     \<lparr> mkdir_raises = None, staged_on_return = True, staged_on_raise = False,
       upload_raises = None, upload_secs = 3, presign = Inr ''https://link'' \<rparr>"

definition ascii_only :: "char \<Rightarrow> bool" where
  "ascii_only c = False"

definition demo_message :: incoming where
  "demo_message =
     \<lparr> message_id = 1, from_user = 7, chat = 7,
       media = Some \<lparr> file_name = Some ''a.txt'', file_size = 30 * 1024 * 1024 \<rparr> \<rparr>"

text \<open>The job of \<open>demo_message\<close> as \<open>file_handler\<close> starts it on a new bot at clock 100, and a
  second message of the same owner, declared at 5 GiB.\<close>

definition demo_start :: "bot \<times> job" where
  "demo_start =
     start_upload ascii_only demo_config fair_world 100 demo_message
       \<lparr> file_name = Some ''a.txt'', file_size = 30 * 1024 * 1024 \<rparr>
       (new_bot\<lparr>user_tasks := [7 \<mapsto> 1]\<rparr>)"

definition huge_message :: incoming where
  "huge_message =
     \<lparr> message_id = 2, from_user = 7, chat = 7,
       media = Some \<lparr> file_name = Some ''b.bin'', file_size = 5 * 1024 * 1024 * 1024 \<rparr> \<rparr>"

section \<open>Properties of a run\<close>

text \<open>The events that are a \<^verbatim>\<open>/cancel\<close> of the owner.\<close>

fun is_Cancel :: "event \<Rightarrow> bool" where
  "is_Cancel (Cancel t) = True"
| "is_Cancel _ = False"

text \<open>How often a cleanup action was performed since the trace had length \<open>k\<close>.\<close>

definition removals :: "nat \<Rightarrow> action \<Rightarrow> bot \<Rightarrow> nat" where
  "removals k a b = count_list (drop k (trace b)) a"

text \<open>
  The bookkeeping of one job, for owner \<open>u\<close> and staging path \<open>p\<close>: the task entry was
  deleted once if it is gone and never if it is there; the status entry and the file
  were removed at most once, and never while they are there.
\<close>

definition bot_inv :: "nat \<Rightarrow> int \<Rightarrow> string \<Rightarrow> bot \<Rightarrow> bool" where
  "bot_inv k u p b \<longleftrightarrow>
     k \<le> length (trace b) \<and>
     removals k (DelTask u) b = (if u \<in> dom (user_tasks b) then 0 else 1) \<and>
     removals k (DelStatus u) b \<le> 1 \<and>
     (u \<in> dom (user_status b) \<longrightarrow> removals k (DelStatus u) b = 0) \<and>
     removals k (RemoveFile p) b \<le> 1 \<and>
     (p \<in> files b \<longrightarrow> removals k (RemoveFile p) b = 0)"

fun running :: "pc \<Rightarrow> bool" where
  "running (AwaitReplyFailed e) = False"
| "running (Terminal ph) = False"
| "running _ = True"

fun terminal :: "pc \<Rightarrow> bool" where
  "terminal (Terminal ph) = True"
| "terminal _ = False"

definition registry_inv :: "nat \<Rightarrow> bot \<times> job \<Rightarrow> bool" where
  "registry_inv k s =
     (case s of (b, j) \<Rightarrow>
        bot_inv k (owner j) (path j) b \<and>
        (stage j = AwaitReply \<or> stage j = AwaitDownload \<longrightarrow>
           removals k (RemoveFile (path j)) b = 0) \<and>
        (terminal (stage j) \<longrightarrow>
           owner j \<notin> dom (user_tasks b) \<and> owner j \<notin> dom (user_status b)) \<and>
        (running (stage j) \<longrightarrow> owner j \<in> dom (user_tasks b)))"

text \<open>The status entry of \<open>u\<close> was deleted once if it is gone and never if it is there.\<close>

definition status_once :: "nat \<Rightarrow> int \<Rightarrow> bot \<Rightarrow> bool" where
  "status_once k u b \<longleftrightarrow>
     k \<le> length (trace b) \<and>
     removals k (DelStatus u) b = (if user_status b u = None then 1 else 0)"

text \<open>
  A run is quiet when every exception raised by an awaited call is an \<^verbatim>\<open>Exception\<close> and
  the edit of the error text (line 386) does not raise; the surroundings are calm when
  what the store client raises is an \<^verbatim>\<open>Exception\<close>.
\<close>

fun quiet_event :: "event \<Rightarrow> pc \<Rightarrow> bool" where
  "quiet_event (Raised t e) (AwaitEditError e0) = False"
| "quiet_event (Raised t e) _ = is_Exception e"
| "quiet_event _ _ = True"

fun quiet_run :: "string list \<Rightarrow> config \<Rightarrow> job_world \<Rightarrow> event list \<Rightarrow> bot \<times> job \<Rightarrow> bool" where
  "quiet_run g cfg w [] s = True"
| "quiet_run g cfg w (ev # evs) s =
     (quiet_event ev (stage (snd s)) \<and> quiet_run g cfg w evs (step g cfg w ev s))"

definition calm :: "job_world \<Rightarrow> bool" where
  "calm w =
     ((case upload_raises w of None \<Rightarrow> True | Some e \<Rightarrow> is_Exception e) \<and>
      (case presign w of Inl e \<Rightarrow> is_Exception e | Inr url \<Rightarrow> True))"

text \<open>Where the staging file can be: while the job runs, the status entry of the owner
  names the staging path; the file is absent except between the download and the cleanup.\<close>

fun may_hold_file :: "pc \<Rightarrow> bool" where
  "may_hold_file AwaitEditUploading = True"
| "may_hold_file (AwaitEditError e) = True"
| "may_hold_file _ = False"

definition names_path :: "bot \<times> job \<Rightarrow> bool" where
  "names_path s =
     (case s of (b, j) \<Rightarrow>
        user_tasks b (owner j) \<noteq> None \<and>
        map_option file_path (user_status b (owner j)) = Some (path j))"

definition staging_inv :: "bot \<times> job \<Rightarrow> bool" where
  "staging_inv s =
     (case s of (b, j) \<Rightarrow>
        path j \<noteq> [] \<and>
        (running (stage j) \<longrightarrow> names_path (b, j)) \<and>
        (\<not> may_hold_file (stage j) \<longrightarrow> path j \<notin> files b))"

text \<open>
  A property of the bot is stable for owner \<open>u\<close> when the elementary actions of a job of
  \<open>u\<close> keep it: sending and logging, the three cleanup actions, putting an object, the
  reporter's memory, staging a file, and setting \<open>elapsed\<close> in the status entry of \<open>u\<close>.
\<close>

definition stable :: "int \<Rightarrow> (bot \<Rightarrow> bool) \<Rightarrow> bool" where
  "stable u P \<longleftrightarrow>
     (\<forall>b m. P b \<longrightarrow> P (say m b)) \<and>
     (\<forall>b l. P b \<longrightarrow> P (note_log l b)) \<and>
     (\<forall>b q. P b \<longrightarrow> P (remove_file q b)) \<and>
     (\<forall>b u'. P b \<longrightarrow> P (del_task u' b)) \<and>
     (\<forall>b u'. P b \<longrightarrow> P (del_status u' b)) \<and>
     (\<forall>b x. P b \<longrightarrow> P (b\<lparr>store := x\<rparr>)) \<and>
     (\<forall>b x. P b \<longrightarrow> P (b\<lparr>last_update := x\<rparr>)) \<and>
     (\<forall>b q. P b \<longrightarrow> P (b\<lparr>files := insert q (files b)\<rparr>)) \<and>
     (\<forall>b st x. P b \<longrightarrow> user_status b u = Some st \<longrightarrow>
        P (b\<lparr>user_status := (user_status b)(u \<mapsto> st\<lparr>elapsed := x\<rparr>)\<rparr>))"

text \<open>The stages before the download has returned.\<close>

fun before_upload :: "pc \<Rightarrow> bool" where
  "before_upload AwaitReply = True"
| "before_upload AwaitDownload = True"
| "before_upload _ = False"

text \<open>
  What the handlers of exceptions, the cancellation and the upload leave as they found
  it: the owner and the download time of the job; the status entry of the owner, unless
  they delete it; and, unless the job is then terminal, both dictionaries.
\<close>

definition settles :: "bot \<times> job \<Rightarrow> bot \<times> job \<Rightarrow> bool" where
  "settles s s' \<longleftrightarrow>
     owner (snd s') = owner (snd s) \<and>
     download_time (snd s') = download_time (snd s) \<and>
     \<not> before_upload (stage (snd s')) \<and>
     (user_status (fst s') (owner (snd s)) = None \<or>
      user_status (fst s') (owner (snd s)) = user_status (fst s) (owner (snd s))) \<and>
     (terminal (stage (snd s')) \<or>
      user_tasks (fst s') = user_tasks (fst s) \<and> user_status (fst s') = user_status (fst s))"

text \<open>A step keeps the registry of \<open>b\<close> when it ends the job or leaves the task entries
  and the owners with a status entry as they are in \<open>b\<close>.\<close>

definition keeps :: "bot \<Rightarrow> bot \<times> job \<Rightarrow> bool" where
  "keeps b s' \<longleftrightarrow>
     terminal (stage (snd s')) \<or>
     user_tasks (fst s') = user_tasks b \<and> dom (user_status (fst s')) = dom (user_status b)"

text \<open>
  The status entry of the job's owner, if there is one, is the record \<open>st0\<close> with the
  download time of the job as \<open>elapsed\<close>, which is 0 until the download has returned.
\<close>

definition record_inv :: "status \<Rightarrow> bot \<times> job \<Rightarrow> bool" where
  "record_inv st0 s =
     (case s of (b, j) \<Rightarrow>
        (\<forall>st. user_status b (owner j) = Some st \<longrightarrow> st = st0\<lparr>elapsed := download_time j\<rparr>) \<and>
        (before_upload (stage j) \<longrightarrow> download_time j = 0))"

text \<open>An environment that sets the six mandatory variables to the values of \<open>demo_config\<close>.\<close>

definition demo_env :: "string \<rightharpoonup> string" where
  "demo_env =
     [''API_ID'' \<mapsto> ''12345'', ''API_HASH'' \<mapsto> ''hash'', ''BOT_TOKEN'' \<mapsto> ''token'',
      ''WASABI_ACCESS_KEY'' \<mapsto> ''access'', ''WASABI_SECRET_KEY'' \<mapsto> ''secret'',
      ''WASABI_BUCKET'' \<mapsto> ''bucket'']"

section \<open>Decimal rendering\<close>

lemma digit_char_in: "d < 10 \<Longrightarrow> digit_char d \<in> set ''0123456789''"
  unfolding digit_char_def by (rule nth_mem) simp

lemma digit_val_digit_char: "d < 10 \<Longrightarrow> digit_val (digit_char d) = d"
proof -
  assume "d < 10"
  then have "d \<in> set [0..<10]" by simp
  then show ?thesis
    by (auto simp: upt_rec digit_char_def digit_val_def)
qed

lemma show_nat_digits: "set (show_nat n) \<subseteq> set ''0123456789''"
proof (induction n rule: show_nat.induct)
  case (1 n)
  show ?case
  proof (cases "n < 10")
    case True
    then show ?thesis using digit_char_in [of n] by (subst show_nat.simps) simp
  next
    case False
    then show ?thesis
      using "1.IH" digit_char_in [of "n mod 10"] by (subst show_nat.simps) simp
  qed
qed

lemma undigits_show_nat: "undigits (show_nat n) = n"
proof (induction n rule: show_nat.induct)
  case (1 n)
  show ?case
  proof (cases "n < 10")
    case True
    then show ?thesis
      by (subst show_nat.simps) (simp add: undigits_def digit_val_digit_char)
  next
    case False
    then have "undigits (show_nat (n div 10)) = n div 10" using "1.IH" by simp
    with False show ?thesis
      by (subst show_nat.simps) (simp add: undigits_def digit_val_digit_char)
  qed
qed

lemma show_nat_inj: "show_nat a = show_nat b \<Longrightarrow> a = b"
  by (metis undigits_show_nat)

lemma show_nat_no: "c \<notin> set ''0123456789'' \<Longrightarrow> c \<notin> set (show_nat n)"
  using show_nat_digits [of n] by blast

lemma show_int_inj: "show_int a = show_int b \<Longrightarrow> a = b"
proof -
  assume eq: "show_int a = show_int b"
  have minus: "\<And>n. CHR ''-'' \<notin> set (show_nat n)" by (rule show_nat_no) simp
  have hd_ne: "\<And>n m. CHR ''-'' # show_nat n \<noteq> show_nat m"
    using minus by (metis list.set_intros(1))
  show ?thesis
  proof (cases "a < 0")
    case True
    then have b: "b < 0" using eq hd_ne by (auto simp: show_int_def split: if_splits)
    with True eq have "nat (- a) = nat (- b)" by (auto simp: show_int_def dest: show_nat_inj)
    with True b show ?thesis by simp
  next
    case False
    then have b: "\<not> b < 0"
      using eq hd_ne [of "nat (- b)" "nat a"] by (auto simp: show_int_def split: if_splits)
    with False eq have "nat a = nat b" by (auto simp: show_int_def dest: show_nat_inj)
    with False b show ?thesis by simp
  qed
qed

lemma show_int_no: "c \<notin> set ''-0123456789'' \<Longrightarrow> c \<notin> set (show_int i)"
  using show_nat_digits [of "nat i"] show_nat_digits [of "nat (- i)"]
  by (auto simp: show_int_def)

lemma append_sep_eq_iff:
  "c \<notin> set a \<Longrightarrow> c \<notin> set a' \<Longrightarrow> (a @ c # b = a' @ c # b') = (a = a' \<and> b = b')"
proof (induction a arbitrary: a')
  case Nil
  then show ?case by (cases a') auto
next
  case (Cons x a)
  then show ?case by (cases a') auto
qed

section \<open>The filename sanitizer\<close>

lemma safe_char_no_slash: "\<not> safe_char uw CHR ''/''"
  by (simp add: safe_char_def word_char_def ascii_alnum_def)

lemma fallback_name_no_slash: "CHR ''/'' \<notin> set (fallback_name now)"
  using show_int_no [of "CHR ''/''" "py_int_of_float now"] by (simp add: fallback_name_def)

lemma splitext_subset:
  "splitext p = (name, ext) \<Longrightarrow> set name \<subseteq> set p \<and> set ext \<subseteq> set p"
  by (auto simp: splitext_def Let_def split: if_splits dest: in_set_takeD in_set_dropD)

text \<open>The part of the confinement property that the code does keep: whatever the input,
  the sanitized name holds no path separator.\<close>

lemma sanitize_filename_no_separator: "CHR ''/'' \<notin> set (sanitize_filename uw now fname)"
proof -
  define kept where "kept = map (\<lambda>c. if c = CHR '' '' then CHR ''_'' else c)
                              (filter (safe_char uw) (path_name fname))"
  have kept: "CHR ''/'' \<notin> set kept"
    using safe_char_no_slash [of uw] by (auto simp: kept_def)
  have cut: "CHR ''/'' \<notin> set (case splitext kept of (name, ext) \<Rightarrow> take 250 name @ ext)"
  proof (cases "splitext kept")
    case (Pair name ext)
    with splitext_subset [OF Pair] kept show ?thesis
      by (auto dest: in_set_takeD)
  qed
  show ?thesis
    using kept cut fallback_name_no_slash [of now]
    by (simp add: sanitize_filename_def Let_def kept_def [symmetric])
qed

text \<open>
  Claim C5. The sanitizer is "to prevent path traversal" (its docstring), and the claim asks
  that its result never contains \<^verbatim>\<open>..\<close>. The code keeps dots: \<^verbatim>\<open>Path("..").name\<close> is \<^verbatim>\<open>..\<close>,
  the regular expression keeps \<^verbatim>\<open>.\<close>, and so the filename \<^verbatim>\<open>..\<close> is returned unchanged,
  whatever the Unicode table and the clock.
\<close>

theorem sanitize_filename_dotdot: "sanitize_filename uw now ''..'' = ''..''"
  by (simp add: sanitize_filename_def path_name_def safe_char_def)

section \<open>The object key\<close>

text \<open>
  Claim C8, as stated: two distinct upload attempts get distinct keys. Two attempts of owner
  7 with the file name \<^verbatim>\<open>a.txt\<close>, half a second apart, get the same key.
\<close>

theorem s3_key_collision: "s3_key 7 1000 ''a.txt'' = s3_key 7 (1000 + 1 / 2) ''a.txt''"
  by (simp add: s3_key_def py_int_of_float_def)

text \<open>
  Claim C8, amended: the key determines the owner, the whole second of the clock and the
  sanitized file name, and nothing else; two attempts get distinct keys exactly when they
  differ in one of the three.
\<close>

theorem s3_key_eq_iff:
  "s3_key u t f = s3_key u' t' f' \<longleftrightarrow>
     u = u' \<and> py_int_of_float t = py_int_of_float t' \<and> f = f'"
proof -
  have slash: "\<And>i. CHR ''/'' \<notin> set (show_int i)" by (rule show_int_no) simp
  have under: "\<And>i. CHR ''_'' \<notin> set (show_int i)" by (rule show_int_no) simp
  have "s3_key u t f = s3_key u' t' f' \<longleftrightarrow>
        show_int u = show_int u' \<and>
        show_int (py_int_of_float t) @ CHR ''_'' # f = show_int (py_int_of_float t') @ CHR ''_'' # f'"
    unfolding s3_key_def by (simp add: append_sep_eq_iff [OF slash slash])
  also have "\<dots> \<longleftrightarrow> show_int u = show_int u' \<and>
        show_int (py_int_of_float t) = show_int (py_int_of_float t') \<and> f = f'"
    by (simp add: append_sep_eq_iff [OF under under])
  finally show ?thesis using show_int_inj by auto
qed

section \<open>The size formatter\<close>

text \<open>
  Claim C6, as stated: every integer \<open>\<le> 0\<close> gives \<^verbatim>\<open>0B\<close> and nothing is raised. Only 0 is
  caught by \<^verbatim>\<open>if not size_bytes\<close>; for \<open>-1\<close> the logarithm raises \<^verbatim>\<open>ValueError\<close>.
\<close>

theorem human_size_negative_raises:
  "human_size (of_int (- 1)) = Inl (ValueError ''math domain error'')"
  by (simp add: human_size_def)

text \<open>
  Claim C6, amended: for an integer \<open>\<le> 0\<close>, \<open>human_size\<close> returns \<^verbatim>\<open>0B\<close> when the integer
  is 0 and raises \<^verbatim>\<open>ValueError\<close> (math domain error) when it is negative.
\<close>

theorem human_size_nonpositive:
  "n \<le> 0 \<Longrightarrow>
   human_size (of_int n) =
     (if n = 0 then Inr ''0B'' else Inl (ValueError ''math domain error''))"
  by (simp add: human_size_def)

theorem human_size_nonpositive_witness:
  "(- 5 :: int) \<le> 0 \<and> human_size (of_int (- 5)) = Inl (ValueError ''math domain error'')"
  using human_size_nonpositive [of "- 5"] by simp

section \<open>Startup\<close>


lemma load_config_fields:
  assumes "load_config parse_int env = Inr cfg"
  shows "API_HASH cfg = getenv env ''API_HASH'' []"
    and "BOT_TOKEN cfg = getenv env ''BOT_TOKEN'' []"
    and "WASABI_ACCESS_KEY cfg = getenv env ''WASABI_ACCESS_KEY'' []"
    and "WASABI_SECRET_KEY cfg = getenv env ''WASABI_SECRET_KEY'' []"
    and "WASABI_BUCKET cfg = getenv env ''WASABI_BUCKET'' []"
    and "env ''API_ID'' = None \<Longrightarrow> API_ID cfg = 0"
  using assms by (auto simp: load_config_def Let_def split: sum.splits)

lemma load_config_api_id:
  "load_config parse_int env = Inr cfg \<Longrightarrow> env ''API_ID'' = Some v \<Longrightarrow>
   parse_int v = Inr (API_ID cfg)"
  by (auto simp: load_config_def Let_def split: sum.splits)

lemma unset_attr_falsy:
  assumes "load_config parse_int env = Inr cfg" and "a \<in> set required_attrs" and "env a = None"
  shows "attr_falsy cfg a"
proof -
  note f = load_config_fields [OF assms(1)]
  from assms(2) have "a = ''API_ID'' \<or> a = ''API_HASH'' \<or> a = ''BOT_TOKEN''
    \<or> a = ''WASABI_ACCESS_KEY'' \<or> a = ''WASABI_SECRET_KEY'' \<or> a = ''WASABI_BUCKET''"
    by (simp add: required_attrs_def)
  then show ?thesis
  proof (elim disjE)
    assume "a = ''API_ID''"
    with assms(3) f(6) show ?thesis by (simp add: attr_falsy_def)
  next
    assume "a = ''API_HASH''"
    with assms(3) f(1) show ?thesis by (simp add: attr_falsy_def getenv_def)
  next
    assume "a = ''BOT_TOKEN''"
    with assms(3) f(2) show ?thesis by (simp add: attr_falsy_def getenv_def)
  next
    assume "a = ''WASABI_ACCESS_KEY''"
    with assms(3) f(3) show ?thesis by (simp add: attr_falsy_def getenv_def)
  next
    assume "a = ''WASABI_SECRET_KEY''"
    with assms(3) f(4) show ?thesis by (simp add: attr_falsy_def getenv_def)
  next
    assume "a = ''WASABI_BUCKET''"
    with assms(3) f(5) show ?thesis by (simp add: attr_falsy_def getenv_def)
  qed
qed


text \<open>
  Claim C4, as stated: with a mandatory value absent the process exits with a non-zero
  status. With no variable set at all, \<open>validate_config\<close> raises, \<open>main\<close> catches the
  exception and logs it, and the process ends with status 0.
\<close>

theorem program_no_env_exits_zero:
  "exit_status (program parse_decimal no_env quiet_world) = 0"
  by (simp add: program_def load_config_def no_env_def getenv_def main_def bot_init_def
      validate_config_def required_attrs_def attr_falsy_def main_handler_def Let_def)

text \<open>
  Claim C4, amended: when the configuration module loads and a mandatory variable is not
  set, startup stops before the bot runs: \<open>validate_config\<close> raises \<^verbatim>\<open>ValueError\<close> naming
  the missing values, \<open>main\<close> logs it as a fatal error, and the process exits with status 0.
\<close>

theorem program_missing_config:
  assumes "load_config parse_int env = Inr cfg"
    and "a \<in> set required_attrs" and "env a = None"
  shows "program parse_int env w =
           \<lparr> exit_status = 0,
             logged = [Error (''Fatal error: Missing configuration: '' @
                              join_comma (filter (attr_falsy cfg) required_attrs))],
             bot_ran = False \<rparr>"
proof -
  have "a \<in> set (filter (attr_falsy cfg) required_attrs)"
    using unset_attr_falsy [OF assms] assms(2) by simp
  then have "filter (attr_falsy cfg) required_attrs \<noteq> []" by force
  then show ?thesis
    using assms(1)
    by (simp add: program_def main_def bot_init_def validate_config_def main_handler_def Let_def)
qed

theorem program_missing_config_witness:
  "program parse_decimal [''API_ID'' \<mapsto> ''12345'', ''API_HASH'' \<mapsto> ''abc''] quiet_world =
     \<lparr> exit_status = 0,
       logged = [Error ''Fatal error: Missing configuration: BOT_TOKEN, WASABI_ACCESS_KEY, WASABI_SECRET_KEY, WASABI_BUCKET''],
       bot_ran = False \<rparr>"
proof -
  let ?env = "[''API_ID'' \<mapsto> ''12345'', ''API_HASH'' \<mapsto> ''abc'']"
  have api: "parse_decimal ''12345'' = Inr 12345"
    by (simp add: parse_decimal_def undigits_def digit_val_def)
  obtain cfg where cfg: "load_config parse_decimal ?env = Inr cfg"
    by (simp add: load_config_def api Let_def)
  have falsy: "filter (attr_falsy cfg) required_attrs =
                 [''BOT_TOKEN'', ''WASABI_ACCESS_KEY'', ''WASABI_SECRET_KEY'', ''WASABI_BUCKET'']"
    using load_config_fields [OF cfg] load_config_api_id [OF cfg, of "''12345''"]
    by (simp add: getenv_def required_attrs_def attr_falsy_def api)
  have "''BOT_TOKEN'' \<in> set required_attrs" by (simp add: required_attrs_def)
  moreover have "?env ''BOT_TOKEN'' = None" by simp
  ultimately show ?thesis
    using program_missing_config [OF cfg, of "''BOT_TOKEN''" quiet_world] by (simp add: falsy)
qed


section \<open>The bot\<close>

lemma say_fields [simp]:
  "user_tasks (say m b) = user_tasks b" "user_status (say m b) = user_status b"
  "files (say m b) = files b" "store (say m b) = store b" "trace (say m b) = trace b"
  "last_update (say m b) = last_update b" "blog (say m b) = blog b"
  "sent (say m b) = sent b @ [m]"
  by (simp_all add: say_def)

lemma note_log_fields [simp]:
  "user_tasks (note_log l b) = user_tasks b" "user_status (note_log l b) = user_status b"
  "files (note_log l b) = files b" "store (note_log l b) = store b"
  "trace (note_log l b) = trace b" "last_update (note_log l b) = last_update b"
  "sent (note_log l b) = sent b" "blog (note_log l b) = blog b @ [l]"
  by (simp_all add: note_log_def)

lemma demo_accepted:
  "file_handler ascii_only demo_config fair_world 100 demo_message new_bot =
     (Accepted, fst demo_start, Some (snd demo_start))"
  by (simp add: file_handler_def demo_message_def demo_config_def new_bot_def demo_start_def
      split: prod.splits)

subsection \<open>The progress reporter\<close>

text \<open>
  Claim C3: the report with \<open>current = total\<close> is always pushed to the notifier. On the bot
  as \<open>__init__\<close> leaves it, the call with \<open>current = total = n\<close> pushes nothing: the
  assignment of the attribute raises \<^verbatim>\<open>AttributeError\<close>, which \<open>progress_bar\<close> logs; the bot
  is otherwise unchanged, so the same happens at every later call.
\<close>

theorem progress_bar_drops_terminal_report:
  "progress_bar n n cid started oper now edit new_bot =
     (note_log (Error (''Progress bar error: '' @ [CHR 0x27] @ ''method'' @ [CHR 0x27] @
                       '' object has no attribute '' @ [CHR 0x27] @ ''last_update'' @ [CHR 0x27]))
        new_bot, None)"
  by (simp add: progress_bar_def progress_try_def new_bot_def)

subsection \<open>The success path\<close>

text \<open>
  Claim C1: an accepted submission whose download succeeds is uploaded and completes. The
  30 MB submission \<open>demo_message\<close> is accepted; every awaited call returns and the download
  stages the file; the upload statement reads the global name \<^verbatim>\<open>s3_client\<close>, which the
  module does not bind, so the job ends as \<open>Failed\<close> with \<^verbatim>\<open>NameError\<close> and the store holds no
  object.
\<close>

theorem accepted_upload_fails:
  "file_handler ascii_only demo_config fair_world 100 demo_message new_bot =
     (Accepted, fst demo_start, Some (snd demo_start)) \<and>
   stage (snd (run module_globals demo_config fair_world
                 [Returned 101, Returned 111, Returned 112, Returned 113, Returned 114]
                 demo_start)) = Terminal (Failed (NameError ''s3_client'')) \<and>
   store (fst (run module_globals demo_config fair_world
                 [Returned 101, Returned 111, Returned 112, Returned 113, Returned 114]
                 demo_start)) = []"
proof -
  have a: "stage (snd (run module_globals demo_config fair_world
                 [Returned 101, Returned 111, Returned 112, Returned 113, Returned 114]
                 demo_start)) = Terminal (Failed (NameError ''s3_client''))"
    by code_simp
  have b: "store (fst (run module_globals demo_config fair_world
                 [Returned 101, Returned 111, Returned 112, Returned 113, Returned 114]
                 demo_start)) = []"
    by code_simp
  show ?thesis by (rule conjI [OF demo_accepted conjI [OF a b]])
qed

text \<open>Whatever the job and the surroundings, the upload statement raises \<^verbatim>\<open>NameError\<close> under
  the module's globals.\<close>

lemma upload_and_link_NameError:
  "upload_and_link module_globals cfg w t s = except_block (NameError ''s3_client'') s"
  by (simp add: upload_and_link_def module_globals_def split: prod.splits)

section \<open>Cleanup on every exit path\<close>


lemma remove_file_fields [simp]:
  "user_tasks (remove_file q b) = user_tasks b" "user_status (remove_file q b) = user_status b"
  "files (remove_file q b) = files b - {q}" "store (remove_file q b) = store b"
  "last_update (remove_file q b) = last_update b"
  "trace (remove_file q b) = trace b @ (if q \<in> files b then [RemoveFile q] else [])"
  by (auto simp: remove_file_def)

lemma del_task_fields [simp]:
  "user_tasks (del_task u b) = (user_tasks b)(u := None)"
  "user_status (del_task u b) = user_status b"
  "files (del_task u b) = files b" "store (del_task u b) = store b"
  "last_update (del_task u b) = last_update b"
  "trace (del_task u b) = trace b @ (if u \<in> dom (user_tasks b) then [DelTask u] else [])"
  by (auto simp: del_task_def)

lemma del_status_fields [simp]:
  "user_tasks (del_status u b) = user_tasks b"
  "user_status (del_status u b) = (user_status b)(u := None)"
  "files (del_status u b) = files b" "store (del_status u b) = store b"
  "last_update (del_status u b) = last_update b"
  "trace (del_status u b) = trace b @ (if u \<in> dom (user_status b) then [DelStatus u] else [])"
  by (auto simp: del_status_def)

lemma bot_inv_cong:
  "user_tasks b' = user_tasks b \<Longrightarrow> user_status b' = user_status b \<Longrightarrow> files b' = files b \<Longrightarrow>
   trace b' = trace b \<Longrightarrow> bot_inv k u p b' = bot_inv k u p b"
  by (simp add: bot_inv_def removals_def)

lemma bot_inv_say [simp]: "bot_inv k u p (say m b) = bot_inv k u p b"
  by (rule bot_inv_cong) simp_all

lemma bot_inv_note_log [simp]: "bot_inv k u p (note_log l b) = bot_inv k u p b"
  by (rule bot_inv_cong) simp_all

lemma bot_inv_remove_file: "bot_inv k u p b \<Longrightarrow> bot_inv k u p (remove_file q b)"
  by (auto simp: bot_inv_def removals_def)

lemma bot_inv_del_task: "bot_inv k u p b \<Longrightarrow> bot_inv k u p (del_task u' b)"
  by (auto simp: bot_inv_def removals_def)

lemma bot_inv_del_status: "bot_inv k u p b \<Longrightarrow> bot_inv k u p (del_status u' b)"
  by (auto simp: bot_inv_def removals_def)

lemma bot_inv_cancel_handler: "bot_inv k u p b \<Longrightarrow> bot_inv k u p (cancel_handler u' b)"
  by (simp add: cancel_handler_def Let_def bot_inv_remove_file bot_inv_del_task
      bot_inv_del_status split: option.splits)


lemma bot_inv_store [simp]: "bot_inv k u p (b\<lparr>store := x\<rparr>) = bot_inv k u p b"
  by (rule bot_inv_cong) simp_all

lemma bot_inv_stage_file:
  "bot_inv k u p b \<Longrightarrow> removals k (RemoveFile p) b = 0 \<Longrightarrow>
   bot_inv k u p (b\<lparr>files := insert q (files b)\<rparr>)"
  by (simp add: bot_inv_def removals_def)

lemma bot_inv_status_update:
  "bot_inv k u p b \<Longrightarrow> u' \<in> dom (user_status b) \<Longrightarrow>
   bot_inv k u p (b\<lparr>user_status := (user_status b)(u' \<mapsto> st)\<rparr>)"
  by (auto simp: bot_inv_def removals_def)

lemma progress_bar_frame:
  "user_tasks (fst (progress_bar c n cid started oper now edit b)) = user_tasks b"
  "user_status (fst (progress_bar c n cid started oper now edit b)) = user_status b"
  "files (fst (progress_bar c n cid started oper now edit b)) = files b"
  "store (fst (progress_bar c n cid started oper now edit b)) = store b"
  "trace (fst (progress_bar c n cid started oper now edit b)) = trace b"
  by (auto simp: progress_bar_def progress_try_def Let_def
      split: option.splits sum.splits prod.splits if_splits)

lemma bot_inv_progress_bar:
  "bot_inv k u p (fst (progress_bar c n cid started oper now edit b)) = bot_inv k u p b"
  by (rule bot_inv_cong) (simp_all add: progress_bar_frame)

lemma removals_say [simp]: "removals k a (say m b) = removals k a b"
  by (simp add: removals_def)

lemma removals_note_log [simp]: "removals k a (note_log l b) = removals k a b"
  by (simp add: removals_def)

lemma registry_finalize:
  "bot_inv k (owner j) (path j) b \<Longrightarrow> registry_inv k (finalize ph (b, j))"
  by (simp add: registry_inv_def finalize_def bot_inv_del_task bot_inv_del_status)

lemma registry_handler_except:
  "bot_inv k (owner j) (path j) b \<Longrightarrow> registry_inv k (handler_except e (b, j))"
  by (simp add: handler_except_def registry_finalize) (simp add: registry_inv_def)

lemma registry_except_block:
  "bot_inv k (owner j) (path j) b \<Longrightarrow> user_tasks b (owner j) \<noteq> None \<Longrightarrow>
   registry_inv k (except_block e (b, j))"
  by (simp add: except_block_def registry_handler_except) (auto simp: registry_inv_def)

lemma registry_cancelled:
  "bot_inv k (owner j) (path j) b \<Longrightarrow> registry_inv k (cancelled (b, j))"
  by (simp add: cancelled_def registry_handler_except bot_inv_cancel_handler)

lemma registry_upload_and_link:
  assumes "bot_inv k (owner j) (path j) b" and "user_tasks b (owner j) \<noteq> None"
  shows "registry_inv k (upload_and_link g cfg w t (b, j))"
proof -
  have fin: "registry_inv k (say m (remove_file (path j) (b\<lparr>store := x\<rparr>)),
                               j\<lparr>stage := AwaitEditComplete\<rparr>)" for m x
    using assms by (auto simp: registry_inv_def bot_inv_remove_file)
  have err: "registry_inv k (except_block e (remove_file (path j) (b\<lparr>store := x\<rparr>), j))" for e x
    using assms by (simp add: registry_except_block bot_inv_remove_file)
  have err1: "registry_inv k (except_block e (b\<lparr>store := x\<rparr>, j))" for e x
    using assms by (simp add: registry_except_block)
  have err0: "registry_inv k (except_block e (b, j))" for e
    using assms by (simp add: registry_except_block)
  show ?thesis
    by (simp add: upload_and_link_def Let_def fin err err1 err0 split: option.splits sum.splits)
qed

lemma registry_invD:
  assumes "registry_inv k (b, j)"
  shows "bot_inv k (owner j) (path j) b"
    and "running (stage j) \<Longrightarrow> user_tasks b (owner j) \<noteq> None"
    and "stage j = AwaitReply \<or> stage j = AwaitDownload \<Longrightarrow> removals k (RemoveFile (path j)) b = 0"
    and "terminal (stage j) \<Longrightarrow> user_tasks b (owner j) = None \<and> user_status b (owner j) = None"
  using assms by (auto simp: registry_inv_def)

lemma registry_at_reply:
  assumes "registry_inv k (b, j)" and "stage j = AwaitReply"
  shows "registry_inv k (at_reply ev (b, j))"
proof (cases ev)
  case (Returned t)
  then show ?thesis using registry_invD [OF assms(1)] assms(2) by (auto simp: registry_inv_def)
next
  case (Raised t e)
  then show ?thesis using registry_invD(1) [OF assms(1)] by (simp add: registry_handler_except)
next
  case (Cancel t)
  then show ?thesis using registry_invD(1) [OF assms(1)] by (simp add: registry_cancelled)
next
  case (Progress c n t edit)
  then show ?thesis using assms(1) by simp
qed

lemma registry_at_download:
  assumes "registry_inv k (b, j)" and "stage j = AwaitDownload"
  shows "registry_inv k (at_download w ev (b, j))"
proof -
  from registry_invD [OF assms(1)] assms(2) have inv: "bot_inv k (owner j) (path j) b"
    and zero: "removals k (RemoveFile (path j)) b = 0"
    and task: "user_tasks b (owner j) \<noteq> None"
    by simp_all
  let ?b1 = "b\<lparr>files := insert (path j) (files b)\<rparr>"
  have inv1: "bot_inv k (owner j) (path j) ?b1"
    by (rule bot_inv_stage_file [OF inv zero])
  show ?thesis
  proof (cases ev)
    case (Returned t)
    have go: "registry_inv k (at_download w (Returned t) (b, j))"
      if b': "bot_inv k (owner j) (path j) b'" "user_tasks b' = user_tasks b"
        and w: "(if staged_on_return w then ?b1 else b) = b'" for b'
    proof (cases "user_status b' (owner j)")
      case None
      then show ?thesis using b' w task by (simp add: Let_def registry_except_block)
    next
      case (Some st)
      then have "bot_inv k (owner j) (path j)
                   (b'\<lparr>user_status := (user_status b')(owner j \<mapsto> st\<lparr>elapsed := t - download_start j\<rparr>)\<rparr>)"
        using b'(1) by (intro bot_inv_status_update) auto
      then show ?thesis using Some b'(2) w task by (auto simp: Let_def registry_inv_def)
    qed
    show ?thesis
    proof (cases "staged_on_return w")
      case True
      then show ?thesis using Returned go [of ?b1] inv1 by simp
    next
      case False
      then show ?thesis using Returned go [of b] inv by simp
    qed
  next
    case (Raised t e)
    then show ?thesis using inv inv1 task by (simp add: registry_except_block)
  next
    case (Cancel t)
    then show ?thesis using inv by (simp add: registry_cancelled)
  next
    case (Progress c n t edit)
    obtain b' r where
      pb: "progress_bar c n (chat_id j) (download_start j) ''Downloading'' t edit b = (b', r)"
      by (cases "progress_bar c n (chat_id j) (download_start j) ''Downloading'' t edit b")
    have same: "user_tasks b' = user_tasks b" "trace b' = trace b"
      using progress_bar_frame(1,5)
              [of c n "chat_id j" "download_start j" "''Downloading''" t edit b] pb
      by simp_all
    have inv': "bot_inv k (owner j) (path j) b'"
      using bot_inv_progress_bar
              [of k "owner j" "path j" c n "chat_id j" "download_start j" "''Downloading''" t edit b]
            pb inv
      by simp
    show ?thesis
    proof (cases r)
      case None
      with Progress pb assms(2) inv' same zero task show ?thesis
        by (auto simp: registry_inv_def removals_def)
    next
      case (Some e)
      with Progress pb inv' same task show ?thesis by (simp add: registry_except_block)
    qed
  qed
qed

lemma registry_at_edit_uploading:
  assumes "registry_inv k (b, j)" and "stage j = AwaitEditUploading"
  shows "registry_inv k (at_edit_uploading g cfg w ev (b, j))"
proof -
  from registry_invD [OF assms(1)] assms(2) have inv: "bot_inv k (owner j) (path j) b"
    and task: "user_tasks b (owner j) \<noteq> None"
    by simp_all
  show ?thesis using inv task assms(1)
    by (cases ev) (simp_all add: registry_upload_and_link registry_except_block registry_cancelled)
qed

lemma registry_at_edit_complete:
  assumes "registry_inv k (b, j)" and "stage j = AwaitEditComplete"
  shows "registry_inv k (at_edit_complete ev (b, j))"
proof -
  from registry_invD [OF assms(1)] assms(2) have inv: "bot_inv k (owner j) (path j) b"
    and task: "user_tasks b (owner j) \<noteq> None"
    by simp_all
  show ?thesis using inv task assms(1)
    by (cases ev) (simp_all add: registry_finalize registry_except_block registry_cancelled)
qed

lemma registry_at_edit_error:
  assumes "registry_inv k (b, j)" and "stage j = AwaitEditError e0"
  shows "registry_inv k (at_edit_error e0 ev (b, j))"
proof -
  from registry_invD [OF assms(1)] have inv: "bot_inv k (owner j) (path j) b"
    by simp
  show ?thesis using inv assms(1)
    by (cases ev) (simp_all add: registry_handler_except registry_cancelled bot_inv_remove_file)
qed

lemma cancel_handler_idle:
  "user_tasks b u = None \<Longrightarrow> cancel_handler u b = say NoActiveMsg b"
  by (simp add: cancel_handler_def dom_def)

lemma registry_at_reply_failed:
  assumes "registry_inv k (b, j)" and "stage j = AwaitReplyFailed e0"
  shows "registry_inv k (at_reply_failed e0 ev (b, j))"
proof (cases ev)
  case (Cancel t)
  have "bot_inv k (owner j) (path j) (cancel_handler (owner j) b)"
    using registry_invD(1) [OF assms(1)] by (rule bot_inv_cancel_handler)
  then show ?thesis using Cancel assms(2) by (simp add: registry_inv_def)
qed (use registry_invD(1) [OF assms(1)] assms(1) in \<open>simp_all add: registry_finalize\<close>)

lemma registry_at_terminal:
  assumes "registry_inv k (b, j)" and "stage j = Terminal ph"
  shows "registry_inv k (at_terminal ev (b, j))"
proof (cases ev)
  case (Cancel t)
  have "user_tasks b (owner j) = None" using registry_invD(4) [OF assms(1)] assms(2) by simp
  then have "cancel_handler (owner j) b = say NoActiveMsg b" by (rule cancel_handler_idle)
  then show ?thesis using Cancel assms by (simp add: registry_inv_def)
qed (use assms(1) in simp_all)

lemma registry_step: "registry_inv k s \<Longrightarrow> registry_inv k (step g cfg w ev s)"
proof -
  assume inv: "registry_inv k s"
  obtain b j where s: "s = (b, j)" by (cases s)
  show ?thesis
    using inv unfolding s step_def
    by (cases "stage j")
       (simp_all add: registry_at_reply registry_at_download registry_at_edit_uploading
          registry_at_edit_complete registry_at_edit_error registry_at_reply_failed
          registry_at_terminal)
qed

lemma registry_run: "registry_inv k s \<Longrightarrow> registry_inv k (run g cfg w evs s)"
  by (induction evs arbitrary: s) (simp_all add: registry_step)

subsection \<open>Properties kept by every step\<close>

lemma stableD:
  assumes "stable u P" and "P b"
  shows "P (say m b)" and "P (note_log l b)" and "P (remove_file q b)" and "P (del_task u' b)"
    and "P (del_status u' b)" and "P (b\<lparr>store := x\<rparr>)" and "P (b\<lparr>last_update := y\<rparr>)"
    and "P (b\<lparr>files := insert q (files b)\<rparr>)"
    and "user_status b u = Some st \<Longrightarrow> P (b\<lparr>user_status := (user_status b)(u \<mapsto> st\<lparr>elapsed := z\<rparr>)\<rparr>)"
  using assms by (simp_all add: stable_def)

lemma stable_cancel_handler:
  assumes "stable u P" and "P b"
  shows "P (cancel_handler u' b)"
proof (cases "u' \<in> dom (user_tasks b)")
  case False
  then show ?thesis using stableD(1) [OF assms] by (simp add: cancel_handler_def)
next
  case True
  have t: "P (del_task u' b)" by (rule stableD(4) [OF assms])
  show ?thesis
  proof (cases "user_status b u'")
    case None
    then show ?thesis using True stableD(1) [OF assms(1) t] by (simp add: cancel_handler_def)
  next
    case (Some st)
    have r: "P (remove_file (file_path st) (del_task u' b))" by (rule stableD(3) [OF assms(1) t])
    have "P (del_status u' (if file_path st \<noteq> [] then remove_file (file_path st) (del_task u' b)
                            else del_task u' b))"
      using stableD(5) [OF assms(1) t] stableD(5) [OF assms(1) r] by simp
    then show ?thesis
      using True Some stableD(1) [OF assms(1)] by (simp add: cancel_handler_def Let_def)
  qed
qed

lemma stable_finalize:
  assumes "stable u P" and "P b"
  shows "P (fst (finalize ph (b, j)))"
  using stableD(5) [OF assms(1) stableD(4) [OF assms]] by (simp add: finalize_def)

lemma stable_handler_except:
  assumes "stable u P" and "P b"
  shows "P (fst (handler_except e (b, j)))"
  using stable_finalize [OF assms(1) stableD(2) [OF assms]] stable_finalize [OF assms]
    stableD(1) [OF assms(1) stableD(2) [OF assms]]
  by (simp add: handler_except_def)

lemma stable_except_block:
  assumes "stable u P" and "P b"
  shows "P (fst (except_block e (b, j)))"
  using stable_handler_except [OF assms] stableD(1) [OF assms(1) stableD(2) [OF assms]]
  by (simp add: except_block_def)

lemma stable_cancelled:
  assumes "stable u P" and "P b"
  shows "P (fst (cancelled (b, j)))"
  using stable_handler_except [OF assms(1) stable_cancel_handler [OF assms]]
  by (simp add: cancelled_def)

lemma stable_upload_and_link:
  assumes "stable u P" and "P b"
  shows "P (fst (upload_and_link g cfg w t (b, j)))"
proof -
  have s: "P (b\<lparr>store := x\<rparr>)" for x by (rule stableD(6) [OF assms])
  have r: "P (remove_file (path j) (b\<lparr>store := x\<rparr>))" for x by (rule stableD(3) [OF assms(1) s])
  show ?thesis
    using stable_except_block [OF assms] stable_except_block [OF assms(1) s]
      stable_except_block [OF assms(1) r] stableD(1) [OF assms(1) r]
    by (simp add: upload_and_link_def Let_def split: option.splits sum.splits)
qed

lemma stable_progress_bar:
  assumes "stable u P" and "P b"
  shows "P (fst (progress_bar c n cid started oper now edit b))"
proof -
  have l: "P (b\<lparr>last_update := y\<rparr>)" for y by (rule stableD(7) [OF assms])
  have "P (fst (progress_try c n cid started oper now edit b))"
    using assms(2) l stableD(1) [OF assms(1) l]
    by (simp add: progress_try_def Let_def split: option.splits sum.splits)
  then show ?thesis
    using stableD(2) [OF assms(1)]
    by (auto simp: progress_bar_def split: prod.splits option.splits)
qed

lemma stable_at_download:
  assumes "stable (owner j) P" and "P b"
  shows "P (fst (at_download w ev (b, j)))"
proof (cases ev)
  case (Returned t)
  have go: "P (fst (at_download w (Returned t) (b, j)))"
    if b': "P b'" and w: "(if staged_on_return w then b\<lparr>files := insert (path j) (files b)\<rparr> else b) = b'"
    for b'
  proof (cases "user_status b' (owner j)")
    case None
    then show ?thesis using w stable_except_block [OF assms(1) b'] by (simp add: Let_def)
  next
    case (Some st)
    then show ?thesis
      using w stableD(1) [OF assms(1) stableD(9) [OF assms(1) b' Some]] by (simp add: Let_def)
  qed
  show ?thesis
    using Returned go [OF assms(2)] go [OF stableD(8) [OF assms]]
    by (cases "staged_on_return w") simp_all
next
  case (Raised t e)
  then show ?thesis
    using stable_except_block [OF assms] stable_except_block [OF assms(1) stableD(8) [OF assms]]
    by simp
next
  case (Cancel t)
  then show ?thesis using stable_cancelled [OF assms] by simp
next
  case (Progress c n t edit)
  obtain b' r where
    pb: "progress_bar c n (chat_id j) (download_start j) ''Downloading'' t edit b = (b', r)"
    by (cases "progress_bar c n (chat_id j) (download_start j) ''Downloading'' t edit b")
  have "P b'"
    using stable_progress_bar [OF assms, of c n "chat_id j" "download_start j" "''Downloading''" t edit]
      pb by simp
  then show ?thesis
    using Progress pb stable_except_block [OF assms(1)] by (cases r) simp_all
qed

lemma stable_step:
  assumes "stable (owner j) P" and "P b"
  shows "P (fst (step g cfg w ev (b, j)))"
proof (cases "stage j")
  case AwaitReply
  then show ?thesis
    using assms(2) stable_handler_except [OF assms] stable_cancelled [OF assms]
    by (cases ev) (simp_all add: step_def)
next
  case AwaitDownload
  then show ?thesis using stable_at_download [OF assms] by (simp add: step_def)
next
  case AwaitEditUploading
  then show ?thesis
    using assms(2) stable_upload_and_link [OF assms] stable_except_block [OF assms]
      stable_cancelled [OF assms]
    by (cases ev) (simp_all add: step_def)
next
  case AwaitEditComplete
  then show ?thesis
    using assms(2) stable_finalize [OF assms(1) stableD(2) [OF assms]]
      stable_except_block [OF assms] stable_cancelled [OF assms]
    by (cases ev) (simp_all add: step_def)
next
  case (AwaitEditError e0)
  then show ?thesis
    using assms(2) stable_handler_except [OF assms(1) stableD(3) [OF assms]]
      stable_handler_except [OF assms] stable_cancelled [OF assms]
    by (cases ev) (simp_all add: step_def)
next
  case (AwaitReplyFailed e0)
  then show ?thesis
    using assms(2) stable_finalize [OF assms] stable_cancel_handler [OF assms]
    by (cases ev) (simp_all add: step_def)
next
  case (Terminal ph)
  then show ?thesis
    using assms(2) stable_cancel_handler [OF assms]
    by (cases ev) (simp_all add: step_def)
qed

text \<open>The owner and the staging path of a job never change.\<close>

lemma handler_except_job [simp]:
  "owner (snd (handler_except e (b, j))) = owner j" "path (snd (handler_except e (b, j))) = path j"
  by (simp_all add: handler_except_def finalize_def)

lemma except_block_job [simp]:
  "owner (snd (except_block e (b, j))) = owner j" "path (snd (except_block e (b, j))) = path j"
  by (simp_all add: except_block_def)

lemma cancelled_job [simp]:
  "owner (snd (cancelled (b, j))) = owner j" "path (snd (cancelled (b, j))) = path j"
  by (simp_all add: cancelled_def)

lemma upload_and_link_job [simp]:
  "owner (snd (upload_and_link g cfg w t (b, j))) = owner j"
  "path (snd (upload_and_link g cfg w t (b, j))) = path j"
  by (simp_all add: upload_and_link_def Let_def split: option.splits sum.splits)

lemma step_job:
  "owner (snd (step g cfg w ev (b, j))) = owner j \<and> path (snd (step g cfg w ev (b, j))) = path j"
proof (cases "stage j")
  case AwaitDownload
  then show ?thesis
    by (cases ev) (simp_all add: step_def Let_def split: option.splits prod.splits)
qed (cases ev; simp add: step_def finalize_def)+

lemma run_job:
  "owner (snd (run g cfg w evs s)) = owner (snd s) \<and> path (snd (run g cfg w evs s)) = path (snd s)"
proof (induction evs arbitrary: s)
  case Nil
  show ?case by simp
next
  case (Cons ev evs)
  obtain b j where s: "s = (b, j)" by (cases s)
  show ?case using Cons [of "step g cfg w ev s"] step_job [of g cfg w ev b j] by (simp add: s)
qed

lemma stable_run:
  assumes "stable (owner (snd s)) P" and "P (fst s)"
  shows "P (fst (run g cfg w evs s))"
  using assms
proof (induction evs arbitrary: s)
  case Nil
  then show ?case by simp
next
  case (Cons ev evs)
  obtain b j where s: "s = (b, j)" by (cases s)
  have "P (fst (step g cfg w ev s))"
    using stable_step [of j P b g cfg w ev] Cons.prems by (simp add: s)
  moreover have "stable (owner (snd (step g cfg w ev s))) P"
    using step_job [of g cfg w ev b j] Cons.prems(1) by (simp add: s)
  ultimately show ?case using Cons.IH [of "step g cfg w ev s"] by simp
qed

lemma stable_status_once: "stable u (status_once k u')"
  by (auto simp: stable_def status_once_def removals_def)

subsection \<open>The staging file\<close>

lemma cancel_handler_files: "files (cancel_handler u b) \<subseteq> files b"
  by (auto simp: cancel_handler_def Let_def split: option.splits if_splits)

lemma cancel_handler_removes:
  assumes "names_path (b, j)" and "path j \<noteq> []"
  shows "path j \<notin> files (cancel_handler (owner j) b)"
proof -
  from assms(1) obtain st where st: "user_status b (owner j) = Some st" "file_path st = path j"
    and task: "owner j \<in> dom (user_tasks b)"
    by (auto simp: names_path_def)
  then show ?thesis using assms(2) by (simp add: cancel_handler_def Let_def)
qed

lemma names_path_cong:
  "user_tasks b' = user_tasks b \<Longrightarrow> user_status b' = user_status b \<Longrightarrow> owner j' = owner j \<Longrightarrow>
   path j' = path j \<Longrightarrow> names_path (b', j') = names_path (b, j)"
  by (simp add: names_path_def)

lemma staging_finalize:
  "path j \<noteq> [] \<Longrightarrow> path j \<notin> files b \<Longrightarrow> staging_inv (finalize ph (b, j))"
  by (simp add: staging_inv_def finalize_def)

lemma staging_handler_except:
  "path j \<noteq> [] \<Longrightarrow> path j \<notin> files b \<Longrightarrow> staging_inv (handler_except e (b, j))"
  by (simp add: handler_except_def staging_finalize) (simp add: staging_inv_def)

lemma staging_except_block:
  assumes "path j \<noteq> []" and "names_path (b, j)" and "is_Exception e \<or> path j \<notin> files b"
  shows "staging_inv (except_block e (b, j))"
proof (cases "is_Exception e")
  case True
  have "names_path (say m (note_log l b), j\<lparr>stage := x\<rparr>)" for m l x
    using assms(2) by (simp add: names_path_def)
  then show ?thesis using True assms(1) by (simp add: except_block_def staging_inv_def)
next
  case False
  then show ?thesis using assms by (simp add: except_block_def staging_handler_except)
qed

lemma staging_cancelled:
  assumes "path j \<noteq> []" and "names_path (b, j) \<or> path j \<notin> files b"
  shows "staging_inv (cancelled (b, j))"
proof -
  have "path j \<notin> files (cancel_handler (owner j) b)"
    using assms cancel_handler_removes [of b j] cancel_handler_files [of "owner j" b] by auto
  then show ?thesis using assms(1) by (simp add: cancelled_def staging_handler_except)
qed

lemma staging_upload_and_link:
  assumes "path j \<noteq> []" and "names_path (b, j)" and "calm w"
  shows "staging_inv (upload_and_link g cfg w t (b, j))"
proof -
  have n1: "names_path (b\<lparr>store := x\<rparr>, j)" for x
    using assms(2) by (simp add: names_path_def)
  have n2: "names_path (remove_file (path j) (b\<lparr>store := x\<rparr>), j)" for x
    using assms(2) by (simp add: names_path_def)
  have e0: "is_Exception e \<Longrightarrow> staging_inv (except_block e (b, j))" for e
    using assms by (simp add: staging_except_block)
  have e1: "is_Exception e \<Longrightarrow> staging_inv (except_block e (b\<lparr>store := x\<rparr>, j))" for e x
    using assms(1) n1 by (simp add: staging_except_block)
  have e2: "staging_inv (except_block e (remove_file (path j) (b\<lparr>store := x\<rparr>), j))" for e x
    using assms(1) n2 by (simp add: staging_except_block)
  have fin: "staging_inv (say m (remove_file (path j) (b\<lparr>store := x\<rparr>)),
                          j\<lparr>stage := AwaitEditComplete\<rparr>)" for m x
    using assms(1) n2 [of x] by (simp add: staging_inv_def names_path_def)
  show ?thesis
    using assms(3)
    by (auto simp: upload_and_link_def Let_def calm_def e0 e1 e2 fin
        split: option.splits sum.splits)
qed

lemma staging_invD:
  assumes "staging_inv (b, j)"
  shows "path j \<noteq> []" and "running (stage j) \<Longrightarrow> names_path (b, j)"
    and "\<not> may_hold_file (stage j) \<Longrightarrow> path j \<notin> files b"
  using assms by (simp_all add: staging_inv_def)

lemma staging_at_reply:
  assumes "staging_inv (b, j)" and "stage j = AwaitReply"
  shows "staging_inv (at_reply ev (b, j))"
proof -
  from staging_invD [OF assms(1)] assms(2) have p: "path j \<noteq> []" and n: "names_path (b, j)"
    and f: "path j \<notin> files b"
    by simp_all
  show ?thesis
  proof (cases ev)
    case (Returned t)
    have "names_path (b, j\<lparr>download_start := t, stage := AwaitDownload\<rparr>)"
      using n by (simp add: names_path_def)
    then show ?thesis using Returned p f by (simp add: staging_inv_def)
  qed (use p f assms(1) in \<open>simp_all add: staging_handler_except staging_cancelled\<close>)
qed

lemma staging_at_download:
  assumes "staging_inv (b, j)" and "stage j = AwaitDownload" and "quiet_event ev (stage j)"
  shows "staging_inv (at_download w ev (b, j))"
proof -
  from staging_invD [OF assms(1)] assms(2) have p: "path j \<noteq> []" and n: "names_path (b, j)"
    and f: "path j \<notin> files b"
    by simp_all
  from n obtain st where st: "user_status b (owner j) = Some st" "file_path st = path j"
    and task: "user_tasks b (owner j) \<noteq> None"
    by (auto simp: names_path_def)
  have n1: "names_path (b\<lparr>files := x\<rparr>, j)" for x
    using n by (simp add: names_path_def)
  show ?thesis
  proof (cases ev)
    case (Returned t)
    then show ?thesis
      using p st task by (simp add: Let_def staging_inv_def names_path_def)
  next
    case (Raised t e)
    then have "is_Exception e" using assms(2,3) by simp
    then show ?thesis using Raised p n n1 by (simp add: staging_except_block)
  next
    case (Cancel t)
    then show ?thesis using p f by (simp add: staging_cancelled)
  next
    case (Progress c n' t edit)
    obtain b' r where
      pb: "progress_bar c n' (chat_id j) (download_start j) ''Downloading'' t edit b = (b', r)"
      by (cases "progress_bar c n' (chat_id j) (download_start j) ''Downloading'' t edit b")
    have same: "user_tasks b' = user_tasks b" "user_status b' = user_status b" "files b' = files b"
      using progress_bar_frame(1,2,3)
              [of c n' "chat_id j" "download_start j" "''Downloading''" t edit b] pb
      by simp_all
    have n': "names_path (b', j)" using n same by (simp add: names_path_def)
    show ?thesis
    proof (cases r)
      case None
      with Progress pb assms(2) p n' f same show ?thesis by (simp add: staging_inv_def)
    next
      case (Some e)
      with Progress pb p n' f same show ?thesis by (simp add: staging_except_block)
    qed
  qed
qed

lemma staging_at_edit_uploading:
  assumes "staging_inv (b, j)" and "stage j = AwaitEditUploading"
    and "quiet_event ev (stage j)" and "calm w"
  shows "staging_inv (at_edit_uploading g cfg w ev (b, j))"
proof -
  from staging_invD [OF assms(1)] assms(2) have p: "path j \<noteq> []" and n: "names_path (b, j)"
    by simp_all
  show ?thesis
    using p n assms
    by (cases ev)
       (simp_all add: staging_upload_and_link staging_except_block staging_cancelled)
qed

lemma staging_at_edit_complete:
  assumes "staging_inv (b, j)" and "stage j = AwaitEditComplete"
  shows "staging_inv (at_edit_complete ev (b, j))"
proof -
  from staging_invD [OF assms(1)] assms(2) have p: "path j \<noteq> []" and n: "names_path (b, j)"
    and f: "path j \<notin> files b"
    by simp_all
  show ?thesis
    using p n f assms
    by (cases ev) (simp_all add: staging_finalize staging_except_block staging_cancelled)
qed

lemma staging_at_edit_error:
  assumes "staging_inv (b, j)" and "stage j = AwaitEditError e0" and "quiet_event ev (stage j)"
  shows "staging_inv (at_edit_error e0 ev (b, j))"
proof -
  from staging_invD [OF assms(1)] assms(2) have p: "path j \<noteq> []" and n: "names_path (b, j)"
    by simp_all
  show ?thesis
    using p n assms
    by (cases ev) (simp_all add: staging_handler_except staging_cancelled)
qed

lemma staging_at_reply_failed:
  assumes "staging_inv (b, j)" and "stage j = AwaitReplyFailed e0"
  shows "staging_inv (at_reply_failed e0 ev (b, j))"
proof -
  from staging_invD [OF assms(1)] assms(2) have p: "path j \<noteq> []" and f: "path j \<notin> files b"
    by simp_all
  show ?thesis
  proof (cases ev)
    case (Cancel t)
    then show ?thesis
      using p f assms(2) cancel_handler_files [of "owner j" b] by (auto simp: staging_inv_def)
  qed (use p f assms(1) in \<open>simp_all add: staging_finalize\<close>)
qed

lemma staging_at_terminal:
  assumes "staging_inv (b, j)" and "stage j = Terminal ph"
  shows "staging_inv (at_terminal ev (b, j))"
proof (cases ev)
  case (Cancel t)
  then show ?thesis
    using assms cancel_handler_files [of "owner j" b] by (auto simp: staging_inv_def)
qed (use assms(1) in simp_all)

lemma staging_step:
  assumes "staging_inv s" and "calm w" and "quiet_event ev (stage (snd s))"
  shows "staging_inv (step g cfg w ev s)"
proof -
  obtain b j where s: "s = (b, j)" by (cases s)
  show ?thesis
    using assms unfolding s step_def
    by (cases "stage j")
       (simp_all add: staging_at_reply staging_at_download staging_at_edit_uploading
          staging_at_edit_complete staging_at_edit_error staging_at_reply_failed
          staging_at_terminal)
qed

lemma staging_run:
  "staging_inv s \<Longrightarrow> calm w \<Longrightarrow> quiet_run g cfg w evs s \<Longrightarrow> staging_inv (run g cfg w evs s)"
  by (induction evs arbitrary: s) (simp_all add: staging_step)

subsection \<open>The state in which a job starts\<close>

lemma show_nat_nonempty: "show_nat n \<noteq> []"
  by (subst show_nat.simps) simp

lemma show_int_nonempty: "show_int i \<noteq> []"
  by (simp add: show_int_def show_nat_nonempty)

lemma path_join_nonempty: "a \<noteq> [] \<or> c \<noteq> [] \<Longrightarrow> path_join a c \<noteq> []"
  by (auto simp: path_join_def)

lemma accepted_start:
  assumes "file_handler uw cfg w now msg b = (Accepted, b0, Some j0)"
  shows "\<exists>m. media msg = Some m \<and> user_tasks b (from_user msg) = None \<and>
             start_upload uw cfg w now msg m
               (b\<lparr>user_tasks := (user_tasks b)(from_user msg \<mapsto> message_id msg)\<rparr>) = (b0, j0)"
  using assms
  by (auto simp: file_handler_def split: option.splits if_splits prod.splits sum.splits)

text \<open>\<open>start_upload\<close> either creates the status entry and waits for the first reply, or
  hands the exception of \<^verbatim>\<open>os.makedirs\<close> to \<open>file_handler\<close>.\<close>

lemma start_upload_cases:
  "\<exists>j. owner j = from_user msg \<and> path j \<noteq> [] \<and> stage j = AwaitReply \<and>
       ((mkdir_raises w = None \<and>
         (\<exists>st. file_path st = path j \<and> progress st = 0 \<and> speed st = ''0B/s'' \<and>
               start_upload uw cfg w now msg m b =
                 (say DownloadingMsg (b\<lparr>user_status := (user_status b)(from_user msg \<mapsto> st)\<rparr>), j))) \<or>
        (\<exists>e. mkdir_raises w = Some e \<and>
              start_upload uw cfg w now msg m b = handler_except e (b, j)))"
proof -
  define original where
    "original = (case file_name m of None \<Rightarrow> fallback_name now
                 | Some n \<Rightarrow> if n = [] then fallback_name now else n)"
  define fp where
    "fp = path_join (path_join (DOWNLOAD_DIR cfg) (show_int (from_user msg)))
            (sanitize_filename uw now original)"
  define j where
    "j = \<lparr> owner = from_user msg, chat_id = chat msg, original_filename = original,
           safe_filename = sanitize_filename uw now original, path = fp,
           size_bytes = file_size m, download_start = 0, download_time = 0,
           stage = AwaitReply \<rparr>"
  have fp: "fp \<noteq> []"
    unfolding fp_def
    by (rule path_join_nonempty, rule disjI1, rule path_join_nonempty, rule disjI2,
        rule show_int_nonempty)
  have j: "owner j = from_user msg" "path j = fp" "stage j = AwaitReply"
    by (simp_all add: j_def)
  have pj: "path j \<noteq> []" using fp j(2) by simp
  show ?thesis
  proof (cases "mkdir_raises w")
    case None
    define st where
      "st = \<lparr> filename = sanitize_filename uw now original, file_path = fp, progress = 0,
               speed = ''0B/s'', elapsed = 0, start_time = now \<rparr>"
    have eq: "start_upload uw cfg w now msg m b =
                (say DownloadingMsg (b\<lparr>user_status := (user_status b)(from_user msg \<mapsto> st)\<rparr>), j)"
      using None by (simp add: start_upload_def Let_def original_def fp_def j_def st_def)
    have st: "file_path st = path j" "progress st = 0" "speed st = ''0B/s''"
      by (simp_all add: st_def j(2))
    show ?thesis using None j(1,3) pj eq st by blast
  next
    case (Some e)
    then have "start_upload uw cfg w now msg m b = handler_except e (b, j)"
      by (simp add: start_upload_def Let_def original_def fp_def j_def)
    then show ?thesis using Some j(1,3) pj by blast
  qed
qed

lemma bot_inv_at_start:
  "user_tasks b u \<noteq> None \<Longrightarrow> bot_inv (length (trace b)) u p b"
  by (auto simp: bot_inv_def removals_def)

lemma start_upload_inv:
  assumes "start_upload uw cfg w now msg m b = (b0, j0)" and "user_tasks b (from_user msg) \<noteq> None"
  shows "owner j0 = from_user msg"
    and "registry_inv (length (trace b)) (b0, j0)"
    and "path j0 \<notin> files b \<Longrightarrow> staging_inv (b0, j0)"
    and "mkdir_raises w = None \<Longrightarrow> status_once (length (trace b)) (from_user msg) b0"
proof -
  from start_upload_cases [of msg w uw cfg now m b] obtain j where
    j: "owner j = from_user msg" "path j \<noteq> []" "stage j = AwaitReply" and
    alt: "(mkdir_raises w = None \<and>
           (\<exists>st. file_path st = path j \<and> progress st = 0 \<and> speed st = ''0B/s'' \<and>
                 start_upload uw cfg w now msg m b =
                   (say DownloadingMsg (b\<lparr>user_status := (user_status b)(from_user msg \<mapsto> st)\<rparr>), j))) \<or>
          (\<exists>e. mkdir_raises w = Some e \<and>
                start_upload uw cfg w now msg m b = handler_except e (b, j))"
    by blast
  have inv: "bot_inv (length (trace b)) (owner j) (path j) b"
    using assms(2) j(1) by (simp add: bot_inv_at_start)
  from alt have
    "owner j0 = from_user msg \<and> registry_inv (length (trace b)) (b0, j0) \<and>
     (path j0 \<notin> files b \<longrightarrow> staging_inv (b0, j0)) \<and>
     (mkdir_raises w = None \<longrightarrow> status_once (length (trace b)) (from_user msg) b0)"
  proof (elim disjE conjE exE)
    fix st
    assume st: "file_path st = path j" "progress st = 0" "speed st = ''0B/s''"
      and eq: "start_upload uw cfg w now msg m b =
                 (say DownloadingMsg (b\<lparr>user_status := (user_status b)(from_user msg \<mapsto> st)\<rparr>), j)"
    from eq assms(1) have b0: "b0 = say DownloadingMsg (b\<lparr>user_status := (user_status b)(from_user msg \<mapsto> st)\<rparr>)"
      and j0: "j0 = j" by simp_all
    have "registry_inv (length (trace b)) (b0, j0)"
      using assms(2) j by (auto simp: b0 j0 registry_inv_def bot_inv_def removals_def)
    moreover have "path j0 \<notin> files b \<longrightarrow> staging_inv (b0, j0)"
      using assms(2) j st by (simp add: b0 j0 staging_inv_def names_path_def)
    moreover have "status_once (length (trace b)) (from_user msg) b0"
      by (simp add: b0 status_once_def removals_def)
    ultimately show ?thesis using j by (simp add: j0)
  next
    fix e
    assume e: "mkdir_raises w = Some e"
      and eq: "start_upload uw cfg w now msg m b = handler_except e (b, j)"
    from eq assms(1) have s0: "handler_except e (b, j) = (b0, j0)" by simp
    have "registry_inv (length (trace b)) (b0, j0)"
      using registry_handler_except [OF inv, of e] s0 by simp
    moreover have "owner j0 = owner j" "path j0 = path j"
      using handler_except_job [of e b j] s0 by simp_all
    moreover have "path j \<notin> files b \<longrightarrow> staging_inv (b0, j0)"
      using staging_handler_except [OF j(2), of b e] s0 by simp
    ultimately show ?thesis using j e by simp
  qed
  then show "owner j0 = from_user msg"
    and "registry_inv (length (trace b)) (b0, j0)"
    and "path j0 \<notin> files b \<Longrightarrow> staging_inv (b0, j0)"
    and "mkdir_raises w = None \<Longrightarrow> status_once (length (trace b)) (from_user msg) b0"
    by simp_all
qed

subsection \<open>Exit paths\<close>




text \<open>What the amended claim leaves out: when the edit of the error text raises, the
  cleanup of line 389 is skipped; the job is \<open>Failed\<close> and the staging file stays.\<close>

lemma error_edit_raises_file_stays:
  "stage (snd (run module_globals demo_config fair_world
                 [Returned 101, Returned 111, Returned 112, Raised 113 (FloodWait 5), Returned 114]
                 demo_start)) = Terminal (Failed (FloodWait 5)) \<and>
   ''downloads/7/a.txt'' \<in> files (fst (run module_globals demo_config fair_world
                 [Returned 101, Returned 111, Returned 112, Raised 113 (FloodWait 5), Returned 114]
                 demo_start))"
  by code_simp


subsection \<open>What a step leaves unchanged\<close>

lemma settles_finalize:
  "user_tasks b1 = user_tasks b \<Longrightarrow> user_status b1 = user_status b \<Longrightarrow>
   settles (b, j) (finalize ph (b1, j))"
  by (simp add: settles_def finalize_def)

lemma settles_handler_except:
  "user_tasks b1 = user_tasks b \<Longrightarrow> user_status b1 = user_status b \<Longrightarrow>
   settles (b, j) (handler_except e (b1, j))"
  by (simp add: handler_except_def settles_def finalize_def)

lemma settles_except_block:
  "user_tasks b1 = user_tasks b \<Longrightarrow> user_status b1 = user_status b \<Longrightarrow>
   settles (b, j) (except_block e (b1, j))"
  by (simp add: except_block_def settles_handler_except) (simp add: settles_def)

lemma cancel_handler_status:
  "user_status (cancel_handler u b) u = None \<or> user_status (cancel_handler u b) u = user_status b u"
  by (simp add: cancel_handler_def Let_def split: option.splits)

lemma settles_cancelled: "settles (b, j) (cancelled (b, j))"
  using cancel_handler_status [of "owner j" b]
  by (auto simp: cancelled_def handler_except_def finalize_def settles_def)

lemma settles_upload_and_link: "settles (b, j) (upload_and_link g cfg w t (b, j))"
proof -
  have s3: "settles (b, j) (say m (remove_file (path j) (b\<lparr>store := x\<rparr>)),
                            j\<lparr>stage := AwaitEditComplete\<rparr>)" for m x
    by (simp add: settles_def)
  show ?thesis
    by (simp add: upload_and_link_def Let_def settles_except_block s3
        split: option.splits sum.splits)
qed

lemma settles_step_running:
  assumes "stage j = AwaitEditUploading \<or> stage j = AwaitEditComplete \<or> stage j = AwaitEditError e0"
    and "\<forall>c n t edit. ev \<noteq> Progress c n t edit"
  shows "settles (b, j) (step g cfg w ev (b, j))"
  using assms
  by (cases ev)
     (auto simp: step_def settles_upload_and_link settles_except_block settles_cancelled
        settles_finalize settles_handler_except)

text \<open>The download time is assigned when the download returns, and at no other step.\<close>

lemma step_download_time:
  assumes "\<not> before_upload (stage j)"
  shows "download_time (snd (step g cfg w ev (b, j))) = download_time j \<and>
         \<not> before_upload (stage (snd (step g cfg w ev (b, j))))"
proof (cases "stage j")
  case AwaitEditUploading
  then show ?thesis
    using settles_upload_and_link [of b j g cfg w] settles_except_block [OF refl refl, of b j]
      settles_cancelled [of b j]
    by (cases ev) (simp_all add: step_def settles_def)
next
  case AwaitEditComplete
  then show ?thesis
    using settles_finalize [of "note_log l b" b j for l] settles_except_block [OF refl refl, of b j]
      settles_cancelled [of b j]
    by (cases ev) (simp_all add: step_def settles_def)
next
  case (AwaitEditError e0)
  then show ?thesis
    using settles_handler_except [of "remove_file (path j) b" b j] settles_handler_except [OF refl refl, of b j]
      settles_cancelled [of b j]
    by (cases ev) (simp_all add: step_def settles_def)
next
  case (AwaitReplyFailed e0)
  then show ?thesis
    using settles_finalize [OF refl refl, of b j]
    by (cases ev) (simp_all add: step_def settles_def)
next
  case (Terminal ph)
  then show ?thesis by (cases ev) (simp_all add: step_def)
qed (use assms in simp_all)

lemma run_download_time:
  "\<not> before_upload (stage (snd s)) \<Longrightarrow>
   download_time (snd (run g cfg w evs s)) = download_time (snd s)"
proof (induction evs arbitrary: s)
  case Nil
  show ?case by simp
next
  case (Cons ev evs)
  obtain b j where s: "s = (b, j)" by (cases s)
  from step_download_time [of j g cfg w ev b] Cons.prems
  have "download_time (snd (step g cfg w ev s)) = download_time (snd s)"
    and "\<not> before_upload (stage (snd (step g cfg w ev s)))"
    by (simp_all add: s)
  then show ?case using Cons.IH [of "step g cfg w ev s"] by simp
qed

text \<open>The status entry of the owner through a step.\<close>

lemma record_inv_settles:
  assumes "record_inv st0 (b, j)" and "settles (b, j) s'"
  shows "record_inv st0 s'"
  using assms by (cases s') (auto simp: record_inv_def settles_def)

lemma record_inv_cong:
  "user_status b' = user_status b \<Longrightarrow> record_inv st0 (b', j) = record_inv st0 (b, j)"
  by (simp add: record_inv_def)

lemma record_inv_step:
  assumes "record_inv st0 (b, j)"
  shows "record_inv st0 (step g cfg w ev (b, j))"
proof (cases "stage j")
  case AwaitReply
  show ?thesis
  proof (cases ev)
    case (Returned t)
    then show ?thesis using assms AwaitReply by (auto simp: step_def record_inv_def)
  next
    case (Raised t e)
    then show ?thesis
      using record_inv_settles [OF assms settles_handler_except [OF refl refl]] AwaitReply by (simp add: step_def)
  next
    case (Cancel t)
    then show ?thesis
      using record_inv_settles [OF assms settles_cancelled] AwaitReply by (simp add: step_def)
  next
    case (Progress c n t edit)
    then show ?thesis using assms AwaitReply by (simp add: step_def)
  qed
next
  case AwaitDownload
  show ?thesis
  proof (cases ev)
    case (Returned t)
    have inv1: "record_inv st0 (b\<lparr>files := x\<rparr>, j)" for x
      using assms by (simp add: record_inv_def)
    have go: "record_inv st0 (at_download w (Returned t) (b, j))"
      if b': "record_inv st0 (b', j)"
        and w: "(if staged_on_return w then b\<lparr>files := insert (path j) (files b)\<rparr> else b) = b'"
      for b'
    proof (cases "user_status b' (owner j)")
      case None
      then show ?thesis
        using w record_inv_settles [OF b' settles_except_block [OF refl refl]] by (simp add: Let_def)
    next
      case (Some st)
      then show ?thesis using w b' by (simp add: Let_def record_inv_def)
    qed
    show ?thesis
      using Returned AwaitDownload go [OF assms] go [OF inv1]
      by (cases "staged_on_return w") (simp_all add: step_def)
  next
    case (Raised t e)
    have inv1: "record_inv st0 (b\<lparr>files := x\<rparr>, j)" for x
      using assms by (simp add: record_inv_def)
    show ?thesis
      using Raised AwaitDownload record_inv_settles [OF assms settles_except_block [OF refl refl]]
        record_inv_settles [OF inv1 settles_except_block [OF refl refl]]
      by (simp add: step_def)
  next
    case (Cancel t)
    then show ?thesis
      using record_inv_settles [OF assms settles_cancelled] AwaitDownload by (simp add: step_def)
  next
    case (Progress c n t edit)
    obtain b' r where
      pb: "progress_bar c n (chat_id j) (download_start j) ''Downloading'' t edit b = (b', r)"
      by (cases "progress_bar c n (chat_id j) (download_start j) ''Downloading'' t edit b")
    have "user_status b' = user_status b"
      using progress_bar_frame(2)
              [of c n "chat_id j" "download_start j" "''Downloading''" t edit b] pb
      by simp
    then have inv': "record_inv st0 (b', j)" using assms by (simp add: record_inv_def)
    show ?thesis
      using Progress AwaitDownload pb inv' record_inv_settles [OF inv' settles_except_block [OF refl refl]]
      by (cases r) (simp_all add: step_def)
  qed
next
  case AwaitEditUploading
  then show ?thesis
    using record_inv_settles [OF assms settles_step_running [of j _ ev b g cfg w]] assms
    by (cases ev) (simp_all add: step_def)
next
  case AwaitEditComplete
  then show ?thesis
    using record_inv_settles [OF assms settles_step_running [of j _ ev b g cfg w]] assms
    by (cases ev) (simp_all add: step_def)
next
  case (AwaitEditError e0)
  then show ?thesis
    using record_inv_settles [OF assms settles_step_running [of j e0 ev b g cfg w]] assms
    by (cases ev) (simp_all add: step_def)
next
  case (AwaitReplyFailed e0)
  show ?thesis
  proof (cases ev)
    case (Cancel t)
    then show ?thesis
      using assms AwaitReplyFailed cancel_handler_status [of "owner j" b]
      by (auto simp: step_def record_inv_def)
  qed (use AwaitReplyFailed assms record_inv_settles [OF assms settles_finalize [OF refl refl]] in
        \<open>simp_all add: step_def\<close>)
next
  case (Terminal ph)
  show ?thesis
  proof (cases ev)
    case (Cancel t)
    then show ?thesis
      using assms Terminal cancel_handler_status [of "owner j" b]
      by (auto simp: step_def record_inv_def)
  qed (use Terminal assms in \<open>simp_all add: step_def\<close>)
qed

lemma record_inv_run: "record_inv st0 s \<Longrightarrow> record_inv st0 (run g cfg w evs s)"
proof (induction evs arbitrary: s)
  case Nil
  then show ?case by simp
next
  case (Cons ev evs)
  obtain b j where s: "s = (b, j)" by (cases s)
  show ?case using Cons.IH [of "step g cfg w ev s"] record_inv_step [of st0 b j] Cons.prems
    by (simp add: s)
qed

text \<open>Without a \<^verbatim>\<open>/cancel\<close>, a job that is not terminal has all entries of the registry that
  it started with.\<close>

lemma keeps_settles: "settles (b, j) s' \<Longrightarrow> keeps b s'"
  by (auto simp: settles_def keeps_def)

lemma keeps_same:
  "user_tasks (fst s') = user_tasks b \<Longrightarrow> dom (user_status (fst s')) = dom (user_status b) \<Longrightarrow>
   keeps b s'"
  by (simp add: keeps_def)

lemma step_keeps_registry:
  assumes "\<not> is_Cancel ev"
  shows "keeps b (step g cfg w ev (b, j))"
proof (cases "stage j")
  case AwaitReply
  then show ?thesis
    using assms
    by (cases ev)
       (simp_all add: step_def keeps_settles [OF settles_handler_except] keeps_same)
next
  case AwaitDownload
  show ?thesis
  proof (cases ev)
    case (Returned t)
    have go: "keeps b (at_download w (Returned t) (b, j))"
      if same: "user_tasks b' = user_tasks b" "user_status b' = user_status b"
        and w: "(if staged_on_return w then b\<lparr>files := insert (path j) (files b)\<rparr> else b) = b'"
      for b'
    proof (cases "user_status b' (owner j)")
      case None
      then show ?thesis
        using w keeps_settles [OF settles_except_block [OF same]] by (simp add: Let_def)
    next
      case (Some st)
      then have "owner j \<in> dom (user_status b)" using same by auto
      then have "insert (owner j) (dom (user_status b)) = dom (user_status b)" by auto
      then show ?thesis using Some w same by (simp add: Let_def keeps_def)
    qed
    show ?thesis
      using Returned AwaitDownload go [of b] go [of "b\<lparr>files := insert (path j) (files b)\<rparr>"]
      by (cases "staged_on_return w") (simp_all add: step_def)
  next
    case (Raised t e)
    then show ?thesis
      using AwaitDownload by (simp add: step_def keeps_settles [OF settles_except_block])
  next
    case (Cancel t)
    then show ?thesis using assms by simp
  next
    case (Progress c n t edit)
    obtain b' r where
      pb: "progress_bar c n (chat_id j) (download_start j) ''Downloading'' t edit b = (b', r)"
      by (cases "progress_bar c n (chat_id j) (download_start j) ''Downloading'' t edit b")
    have same: "user_tasks b' = user_tasks b" "user_status b' = user_status b"
      using progress_bar_frame(1,2)
              [of c n "chat_id j" "download_start j" "''Downloading''" t edit b] pb
      by simp_all
    show ?thesis
      using Progress AwaitDownload pb same keeps_settles [OF settles_except_block [OF same]]
      by (cases r) (simp_all add: step_def keeps_same)
  qed
next
  case AwaitEditUploading
  then show ?thesis
    using assms
    by (cases ev)
       (simp_all add: step_def keeps_settles [OF settles_upload_and_link]
          keeps_settles [OF settles_except_block] keeps_same)
next
  case AwaitEditComplete
  then show ?thesis
    using assms
    by (cases ev)
       (simp_all add: step_def keeps_settles [OF settles_finalize]
          keeps_settles [OF settles_except_block] keeps_same)
next
  case (AwaitEditError e0)
  then show ?thesis
    using assms
    by (cases ev)
       (simp_all add: step_def keeps_settles [OF settles_handler_except] keeps_same)
next
  case (AwaitReplyFailed e0)
  then show ?thesis
    using assms
    by (cases ev) (simp_all add: step_def keeps_settles [OF settles_finalize] keeps_same)
next
  case (Terminal ph)
  then show ?thesis using assms by (cases ev) (simp_all add: step_def keeps_def)
qed

lemma step_terminal:
  "terminal (stage j) \<Longrightarrow> terminal (stage (snd (step g cfg w ev (b, j))))"
  by (cases "stage j"; cases ev) (simp_all add: step_def)

lemma run_terminal:
  "terminal (stage (snd s)) \<Longrightarrow> terminal (stage (snd (run g cfg w evs s)))"
proof (induction evs arbitrary: s)
  case Nil
  then show ?case by simp
next
  case (Cons ev evs)
  obtain b j where s: "s = (b, j)" by (cases s)
  show ?case using Cons.IH [of "step g cfg w ev s"] step_terminal [of j g cfg w ev b] Cons.prems
    by (simp add: s)
qed

lemma run_keeps_registry:
  assumes "\<not> list_ex is_Cancel evs" and "\<not> terminal (stage (snd (run g cfg w evs s)))"
  shows "user_tasks (fst (run g cfg w evs s)) = user_tasks (fst s) \<and>
         dom (user_status (fst (run g cfg w evs s))) = dom (user_status (fst s))"
  using assms
proof (induction evs arbitrary: s)
  case Nil
  show ?case by simp
next
  case (Cons ev evs)
  obtain b j where s: "s = (b, j)" by (cases s)
  let ?s1 = "step g cfg w ev s"
  have later: "user_tasks (fst (run g cfg w evs ?s1)) = user_tasks (fst ?s1) \<and>
               dom (user_status (fst (run g cfg w evs ?s1))) = dom (user_status (fst ?s1))"
    using Cons.IH [of ?s1] Cons.prems by simp
  have "\<not> terminal (stage (snd ?s1))"
    using run_terminal [of ?s1 g cfg w evs] Cons.prems(2) by auto
  then have "user_tasks (fst ?s1) = user_tasks b \<and> dom (user_status (fst ?s1)) = dom (user_status b)"
    using step_keeps_registry [of ev b g cfg w j] Cons.prems(1) by (simp add: s keeps_def)
  then show ?case using later by (simp add: s)
qed

subsection \<open>The file handler\<close>

lemma load_config_limit:
  "load_config parse_int env = Inr cfg \<Longrightarrow> MAX_FILE_SIZE cfg = 4294967296"
  by (auto simp: load_config_def Let_def split: sum.splits)

lemma human_size_limit: "human_size 4294967296 = Inr ''4.0 GB''"
  by code_simp

lemma demo_loaded: "load_config parse_decimal demo_env = Inr demo_config"
  by (simp add: load_config_def demo_env_def demo_config_def parse_decimal_def undigits_def
      digit_val_def getenv_def Let_def)

lemma over_limit:
  assumes "load_config parse_int env = Inr cfg" and "media msg = Some m"
    and "MAX_FILE_SIZE cfg < file_size m"
  shows "file_handler uw cfg w now msg b =
           (Rejected TooLarge, say (TooLargeMsg ''4.0 GB'') b, None)"
  using assms load_config_limit [OF assms(1)]
  by (simp add: file_handler_def human_size_limit)

text \<open>
  Claim C9: under every configuration that \<^verbatim>\<open>config.py\<close> loads, a submission whose declared
  size exceeds \<open>MAX_FILE_SIZE\<close> is rejected as too large at once: the handler hands the
  text "File size exceeds 4.0 GB limit" to the notifier and returns; no job is created, and
  the bot is as before but for that text (registry, staging directory, store and cleanup
  trace unchanged). A declared size up to the maximum is not rejected as too large.
\<close>

theorem size_limit_checked_first:
  assumes "load_config parse_int env = Inr cfg" and "media msg = Some m"
  shows "(MAX_FILE_SIZE cfg < file_size m \<longrightarrow>
            file_handler uw cfg w now msg b =
              (Rejected TooLarge, b\<lparr>sent := sent b @ [TooLargeMsg ''4.0 GB'']\<rparr>, None)) \<and>
         (file_size m \<le> MAX_FILE_SIZE cfg \<longrightarrow>
            fst (file_handler uw cfg w now msg b) \<noteq> Rejected TooLarge)"
proof (intro conjI impI)
  assume "MAX_FILE_SIZE cfg < file_size m"
  then show "file_handler uw cfg w now msg b =
               (Rejected TooLarge, b\<lparr>sent := sent b @ [TooLargeMsg ''4.0 GB'']\<rparr>, None)"
    using over_limit [OF assms] by (simp add: say_def)
next
  assume "file_size m \<le> MAX_FILE_SIZE cfg"
  then show "fst (file_handler uw cfg w now msg b) \<noteq> Rejected TooLarge"
    using assms(2) by (auto simp: file_handler_def split: prod.splits)
qed

theorem size_limit_checked_first_witness:
  "load_config parse_decimal demo_env = Inr demo_config \<and>
   file_handler ascii_only demo_config fair_world 200 huge_message new_bot =
     (Rejected TooLarge, new_bot\<lparr>sent := sent new_bot @ [TooLargeMsg ''4.0 GB'']\<rparr>, None) \<and>
   fst (file_handler ascii_only demo_config fair_world 100 demo_message new_bot) \<noteq>
     Rejected TooLarge"
proof -
  have big: "media huge_message =
               Some \<lparr> file_name = Some ''b.bin'', file_size = 5 * 1024 * 1024 * 1024 \<rparr>"
    by (simp add: huge_message_def)
  have small: "media demo_message =
                 Some \<lparr> file_name = Some ''a.txt'', file_size = 30 * 1024 * 1024 \<rparr>"
    by (simp add: demo_message_def)
  have limit: "MAX_FILE_SIZE demo_config = 4294967296" by (simp add: demo_config_def)
  show ?thesis
    using size_limit_checked_first
            [OF demo_loaded big, where uw = ascii_only and w = fair_world and now = 200
               and b = new_bot]
      size_limit_checked_first
            [OF demo_loaded small, where uw = ascii_only and w = fair_world and now = 100
               and b = new_bot]
      demo_loaded
    by (simp add: limit)
qed


lemma start_upload_tasks:
  assumes "start_upload uw cfg w now msg m b = (b0, j0)"
  shows "terminal (stage j0) \<or> user_tasks b0 = user_tasks b"
proof -
  from start_upload_cases [of msg w uw cfg now m b] obtain j where
    "(mkdir_raises w = None \<and>
       (\<exists>st. file_path st = path j \<and> progress st = 0 \<and> speed st = ''0B/s'' \<and>
             start_upload uw cfg w now msg m b =
               (say DownloadingMsg (b\<lparr>user_status := (user_status b)(from_user msg \<mapsto> st)\<rparr>), j))) \<or>
      (\<exists>e. mkdir_raises w = Some e \<and>
            start_upload uw cfg w now msg m b = handler_except e (b, j))"
    by blast
  then show ?thesis
  proof (elim disjE conjE exE)
    fix e
    assume "start_upload uw cfg w now msg m b = handler_except e (b, j)"
    then have "handler_except e (b, j) = (b0, j0)" using assms by simp
    then show ?thesis
      using settles_handler_except [OF refl refl, of b j e] by (auto simp: settles_def)
  qed (use assms in auto)
qed



text \<open>
  What the amended claim leaves out: a \<^verbatim>\<open>/cancel\<close> handled while the report of a failure
  (line 262) is pending deletes the registry entries of a job whose handler has not yet
  finished; a second submission is then accepted, and the \<^verbatim>\<open>finally\<close> block of the first
  handler deletes the entries of the second job.
\<close>

lemma late_cancel_admits_second_job:
  "stage (snd (run module_globals demo_config fair_world
                 [Returned 101, Raised 111 (RPCError ''x''), Returned 112, Cancel 113]
                 demo_start)) = AwaitReplyFailed (RPCError ''x'') \<and>
   fst (file_handler ascii_only demo_config fair_world 200 demo_message
          (fst (run module_globals demo_config fair_world
                  [Returned 101, Raised 111 (RPCError ''x''), Returned 112, Cancel 113]
                  demo_start))) = Accepted"
  by code_simp

subsection \<open>The status record\<close>

lemma fmt_1f_zero: "fmt_1f 0 = ''0.0''"
  by code_simp

lemma start_upload_record:
  assumes "start_upload uw cfg w now msg m b = (b0, j0)" and "mkdir_raises w = None"
  shows "user_status b0 (from_user msg) =
           Some \<lparr> filename = safe_filename j0, file_path = path j0, progress = 0,
                  speed = ''0B/s'', elapsed = 0, start_time = now \<rparr>"
    and "owner j0 = from_user msg" and "stage j0 = AwaitReply" and "download_time j0 = 0"
  using assms by (auto simp: start_upload_def Let_def)




end
